theory Spec2Isabelle
  imports Complex_Main
begin

section \<open>Conventions of the embedding\<close>

text \<open>
  The development embeds \<^verbatim>\<open>scripts/generate_audio.py\<close>. Python integers are \<open>int\<close>, a
  \<^verbatim>\<open>list[float]\<close> is a \<open>real list\<close>, and every exception the source can raise on the
  modelled paths is a value \<open>Inl e\<close> of the result type \<open>py_error + 'a\<close>.

  Python floats are IEEE 754 binary64 numbers. The embedding treats them in two ways.
  \<^item> Arithmetic whose result decides an integer (a sample count, a sample offset, a loop
    bound) and the arithmetic of \<^verbatim>\<open>note_to_freq\<close> are modelled as the machine performs
    them: every operation rounds its exact result to the nearest double, ties to even,
    with gradual underflow and overflow to an infinity (type \<open>pyfloat\<close>, functions \<open>fl\<close>,
    \<open>fmul\<close>, \<open>fdiv\<close>, \<open>fsub\<close>). A decimal literal of the source that enters such
    arithmetic denotes the double nearest to it, written \<open>fl 0.05\<close>; the beat offsets and
    note lengths of the three tracks are multiples of \<open>1/4\<close> and are doubles as they stand.
  \<^item> Sample values, phases, envelopes and filter memories are modelled as exact reals:
    statements about them hold in exact real arithmetic.

  The arguments of the modelled functions are finite doubles. \<open>round\<close> is the nearest
  integer; no statement is evaluated at a tie. Exhaustion of memory is outside the model.
\<close>

datatype py_error = ValueError | IndexError | ZeroDivisionError | OverflowError | NotModelled

text \<open>
  \<open>NotModelled\<close> is not a Python exception. It marks the one computation the embedding
  does not follow: \<^verbatim>\<open>gen_piano_note\<close> called with a NaN frequency, whose samples would be
  NaN. No call made by the source reaches it.
\<close>

section \<open>Double-precision arithmetic\<close>

text \<open>A double is a finite real, an infinity or a NaN.\<close>

datatype pyfloat = Finite real | PosInf | NegInf | NaN

text \<open>Rounding to the nearest integer, a tie going to the even neighbour.\<close>

definition round_half_even :: "real \<Rightarrow> int" where
  "round_half_even y =
     (let f = \<lfloor>y\<rfloor>
      in if y - real_of_int f < 1 / 2 then f
         else if 1 / 2 < y - real_of_int f then f + 1
         else if even f then f else f + 1)"

text \<open>
  \<open>fl x\<close> is the double nearest to the real \<open>x\<close>. A double has 53 significant bits, so
  the spacing of the doubles around \<open>x\<close> is \<open>2\<close> to the power \<open>e - 52\<close>, where \<open>e\<close> is the
  integer part of the binary logarithm of \<open>\<bar>x\<bar>\<close>, and it is never finer than \<open>2\<close> to the
  power \<open>-1074\<close>, the spacing of the subnormal numbers. The result is a double whenever
  \<open>\<bar>x\<bar>\<close> is below the overflow threshold of \<open>double_overflow\<close>.
\<close>

definition fl :: "real \<Rightarrow> real" where
  "fl x = (if x = 0 then 0
           else let e = max \<lfloor>log 2 \<bar>x\<bar>\<rfloor> (- 1022);
                    ulp = 2 powr (real_of_int e - 52)
                in real_of_int (round_half_even (x / ulp)) * ulp)"

text \<open>
  The largest double is \<open>2 ^ 1024 - 2 ^ 971\<close>; an exact result of magnitude
  \<open>2 ^ 1024 - 2 ^ 970\<close> or more rounds to an infinity.
\<close>

definition double_overflow :: "real \<Rightarrow> bool" where
  "double_overflow x = (2 ^ 1024 - 2 ^ 970 \<le> \<bar>x\<bar>)"

definition to_double :: "real \<Rightarrow> pyfloat" where
  "to_double x = (if double_overflow x then (if 0 < x then PosInf else NegInf)
                  else Finite (fl x))"

text \<open>Python's \<^verbatim>\<open>x * y\<close> on floats; it never raises.\<close>

fun fmul :: "pyfloat \<Rightarrow> pyfloat \<Rightarrow> pyfloat" where
  "fmul (Finite x) (Finite y) = to_double (x * y)"
| "fmul (Finite x) PosInf = (if x = 0 then NaN else if 0 < x then PosInf else NegInf)"
| "fmul (Finite x) NegInf = (if x = 0 then NaN else if 0 < x then NegInf else PosInf)"
| "fmul PosInf (Finite y) = (if y = 0 then NaN else if 0 < y then PosInf else NegInf)"
| "fmul NegInf (Finite y) = (if y = 0 then NaN else if 0 < y then NegInf else PosInf)"
| "fmul PosInf PosInf = PosInf"
| "fmul PosInf NegInf = NegInf"
| "fmul NegInf PosInf = NegInf"
| "fmul NegInf NegInf = PosInf"
| "fmul NaN y = NaN"
| "fmul x NaN = NaN"

text \<open>Python's \<^verbatim>\<open>x - y\<close> on floats.\<close>

fun fsub :: "pyfloat \<Rightarrow> pyfloat \<Rightarrow> pyfloat" where
  "fsub (Finite x) (Finite y) = to_double (x - y)"
| "fsub (Finite x) PosInf = NegInf"
| "fsub (Finite x) NegInf = PosInf"
| "fsub PosInf (Finite y) = PosInf"
| "fsub NegInf (Finite y) = NegInf"
| "fsub PosInf PosInf = NaN"
| "fsub PosInf NegInf = PosInf"
| "fsub NegInf PosInf = NegInf"
| "fsub NegInf NegInf = NaN"
| "fsub NaN y = NaN"
| "fsub x NaN = NaN"

text \<open>Python's \<^verbatim>\<open>x / y\<close> on floats: a zero divisor raises \<^verbatim>\<open>ZeroDivisionError\<close>.\<close>

fun fdiv :: "pyfloat \<Rightarrow> pyfloat \<Rightarrow> py_error + pyfloat" where
  "fdiv (Finite x) (Finite y) =
     (if y = 0 then Inl ZeroDivisionError else Inr (to_double (x / y)))"
| "fdiv PosInf (Finite y) =
     (if y = 0 then Inl ZeroDivisionError else Inr (if 0 < y then PosInf else NegInf))"
| "fdiv NegInf (Finite y) =
     (if y = 0 then Inl ZeroDivisionError else Inr (if 0 < y then NegInf else PosInf))"
| "fdiv NaN (Finite y) = (if y = 0 then Inl ZeroDivisionError else Inr NaN)"
| "fdiv (Finite x) PosInf = Inr (Finite 0)"
| "fdiv (Finite x) NegInf = Inr (Finite 0)"
| "fdiv PosInf PosInf = Inr NaN"
| "fdiv PosInf NegInf = Inr NaN"
| "fdiv NegInf PosInf = Inr NaN"
| "fdiv NegInf NegInf = Inr NaN"
| "fdiv NaN PosInf = Inr NaN"
| "fdiv NaN NegInf = Inr NaN"
| "fdiv x NaN = Inr NaN"

text \<open>
  The conversion of a Python integer to a float, as it happens when an integer meets a
  float in an arithmetic operation: the nearest double, \<^verbatim>\<open>OverflowError\<close> when there is
  none.
\<close>

definition py_float :: "int \<Rightarrow> py_error + pyfloat" where
  "py_float i = (if double_overflow (real_of_int i) then Inl OverflowError
                 else Inr (Finite (fl (real_of_int i))))"

text \<open>
  Python's \<^verbatim>\<open>int(x)\<close> on a float truncates toward zero; an infinity raises
  \<^verbatim>\<open>OverflowError\<close>, a NaN raises \<^verbatim>\<open>ValueError\<close>.
\<close>

definition py_trunc :: "real \<Rightarrow> int" where
  "py_trunc x = (if 0 \<le> x then \<lfloor>x\<rfloor> else \<lceil>x\<rceil>)"

fun py_int :: "pyfloat \<Rightarrow> py_error + int" where
  "py_int (Finite x) = Inr (py_trunc x)"
| "py_int PosInf = Inl OverflowError"
| "py_int NegInf = Inl OverflowError"
| "py_int NaN = Inl ValueError"

text \<open>
  Python's \<^verbatim>\<open>2 ** x\<close> for a float \<open>x\<close>, which calls the C library's \<^verbatim>\<open>pow\<close>: the library
  function is taken to round correctly; a result too large for a double raises
  \<^verbatim>\<open>OverflowError\<close>, a result too small becomes zero.
\<close>

fun py_pow2 :: "pyfloat \<Rightarrow> py_error + pyfloat" where
  "py_pow2 (Finite x) =
     (if double_overflow (2 powr x) then Inl OverflowError else Inr (Finite (fl (2 powr x))))"
| "py_pow2 PosInf = Inr PosInf"
| "py_pow2 NegInf = Inr (Finite 0)"
| "py_pow2 NaN = Inr NaN"

section \<open>Python lists, loops and exceptions\<close>

definition SAMPLE_RATE :: real where
  "SAMPLE_RATE = 44100"

text \<open>\<^verbatim>\<open>range(n)\<close> for an integer \<open>n\<close>; empty when \<open>n \<le> 0\<close>.\<close>

definition py_range :: "int \<Rightarrow> nat list" where
  "py_range n = [0..<nat n]"

text \<open>
  Resolving a Python list subscript on a list of length \<open>n\<close>: a negative subscript
  counts from the end, anything outside \<open>-n \<le> i < n\<close> raises \<^verbatim>\<open>IndexError\<close>.
\<close>

definition py_index :: "nat \<Rightarrow> int \<Rightarrow> py_error + nat" where
  "py_index n i =
     (let j = (if i < 0 then int n + i else i)
      in if 0 \<le> j \<and> j < int n then Inr (nat j) else Inl IndexError)"

text \<open>A \<^verbatim>\<open>for\<close> loop whose body may raise: the first exception ends the loop.\<close>

fun for_each :: "('a \<Rightarrow> 's \<Rightarrow> py_error + 's) \<Rightarrow> 'a list \<Rightarrow> 's \<Rightarrow> py_error + 's" where
  "for_each body [] s = Inr s"
| "for_each body (x # xs) s =
     (case body x s of Inl e \<Rightarrow> Inl e | Inr s' \<Rightarrow> for_each body xs s')"

text \<open>Sequencing of two computations that may raise.\<close>

definition py_bind :: "py_error + 'a \<Rightarrow> ('a \<Rightarrow> py_error + 'b) \<Rightarrow> py_error + 'b" where
  "py_bind m f = (case m of Inl e \<Rightarrow> Inl e | Inr x \<Rightarrow> f x)"

text \<open>
  A loop that cannot raise, appends one sample per iteration to an initially empty list
  and carries a state \<open>s\<close> (a phase, a filter memory, a generator) from one iteration
  to the next: \<open>body x s\<close> is the appended sample and the next state.
\<close>

definition append_loop :: "('a \<Rightarrow> 's \<Rightarrow> real \<times> 's) \<Rightarrow> 'a list \<Rightarrow> 's \<Rightarrow> real list \<times> 's" where
  "append_loop body xs s0 =
     fold (\<lambda>x (samples, s). let (v, s') = body x s in (samples @ [v], s')) xs ([], s0)"

text \<open>
  An augmented assignment to a list element, \<^verbatim>\<open>xs[i] += v\<close> or \<^verbatim>\<open>xs[i] *= v\<close>: the
  subscript is resolved as Python does, then the element is replaced.
\<close>

definition py_update :: "real list \<Rightarrow> int \<Rightarrow> (real \<Rightarrow> real) \<Rightarrow> py_error + real list" where
  "py_update xs i f =
     (case py_index (length xs) i of
        Inl e \<Rightarrow> Inl e
      | Inr j \<Rightarrow> Inr (xs[j := f (xs ! j)]))"

text \<open>\<^verbatim>\<open>max(...)\<close> over a sequence: \<^verbatim>\<open>ValueError\<close> when the sequence is empty.\<close>

definition py_max :: "('a::linorder) list \<Rightarrow> py_error + 'a" where
  "py_max xs = (case xs of [] \<Rightarrow> Inl ValueError | x # rest \<Rightarrow> Inr (fold max rest x))"

text \<open>
  \<^verbatim>\<open>int(seconds * SAMPLE_RATE)\<close>, the expression by which every recipe and
  \<^verbatim>\<open>apply_envelope\<close> turn a time in seconds into a number of samples: the product is
  rounded to a double, then truncated.
\<close>

definition sample_count :: "pyfloat \<Rightarrow> py_error + int" where
  "sample_count seconds = py_int (fmul seconds (Finite SAMPLE_RATE))"

section \<open>Pseudorandom numbers\<close>

text \<open>
  The generator of Python's \<^verbatim>\<open>random\<close> module is library code: it enters as a
  parameter. \<open>new_Random seed\<close> is the state of a generator seeded with the integer
  \<open>seed\<close>, \<open>next_random\<close> is one call of its \<^verbatim>\<open>random()\<close> method, returning the draw and
  the advanced state. \<^verbatim>\<open>uniform(a, b)\<close> is \<^verbatim>\<open>a + (b - a) * self.random()\<close>.
\<close>

record 'g py_random =
  new_Random :: "int \<Rightarrow> 'g"
  next_random :: "'g \<Rightarrow> real \<times> 'g"

definition uniform :: "'g py_random \<Rightarrow> real \<Rightarrow> real \<Rightarrow> 'g \<Rightarrow> real \<times> 'g" where
  "uniform lib a b g = (let (u, g') = next_random lib g in (a + (b - a) * u, g'))"

text \<open>The comprehension \<^verbatim>\<open>[rng.uniform(a, b) for _ in range(n)]\<close>, threading the generator.\<close>

fun uniform_draws :: "'g py_random \<Rightarrow> real \<Rightarrow> real \<Rightarrow> nat list \<Rightarrow> 'g \<Rightarrow> real list" where
  "uniform_draws lib a b [] g = []"
| "uniform_draws lib a b (i # rest) g =
     (let (u, g') = uniform lib a b g in u # uniform_draws lib a b rest g')"

text \<open>
  What a running Python process holds besides the arguments of a call, as far as random
  numbers are concerned: the state of the hidden generator behind the module-level
  functions \<^verbatim>\<open>random.random()\<close> and \<^verbatim>\<open>random.uniform()\<close>, and the entropy source of the
  operating system (or the clock), from which a generator constructed without a seed
  takes its seed. \<open>entropy amb k\<close> is what the \<open>k\<close>-th reading of that source delivers,
  \<open>entropy_reads amb\<close> the number of readings so far.
\<close>

record 'g ambient =
  module_generator :: 'g
  entropy :: "nat \<Rightarrow> int"
  entropy_reads :: nat

text \<open>
  The constructor \<^verbatim>\<open>random.Random(a)\<close>: with an integer the state of the new generator is
  determined by that integer; with \<^verbatim>\<open>None\<close> the seed is read from the entropy source.
\<close>

definition py_Random :: "'g py_random \<Rightarrow> int option \<Rightarrow> 'g ambient \<Rightarrow> 'g \<times> 'g ambient" where
  "py_Random lib a amb =
     (case a of
        Some seed \<Rightarrow> (new_Random lib seed, amb)
      | None \<Rightarrow> (new_Random lib (entropy amb (entropy_reads amb)),
                 amb\<lparr>entropy_reads := Suc (entropy_reads amb)\<rparr>))"

text \<open>
  The module-level \<^verbatim>\<open>random.uniform(a, b)\<close>, which draws from the hidden generator and
  advances it. The source never calls it.
\<close>

definition module_uniform :: "'g py_random \<Rightarrow> real \<Rightarrow> real \<Rightarrow> 'g ambient \<Rightarrow> real \<times> 'g ambient" where
  "module_uniform lib a b amb =
     (let (u, g') = uniform lib a b (module_generator amb)
      in (u, amb\<lparr>module_generator := g'\<rparr>))"

text \<open>
  \<^verbatim>\<open>white_noise(n_samples, seed)\<close> as a call in a process whose ambient state is \<open>amb\<close>: the
  list it returns and the ambient state it leaves.
\<close>

definition white_noise_call ::
  "'g py_random \<Rightarrow> int \<Rightarrow> int \<Rightarrow> 'g ambient \<Rightarrow> real list \<times> 'g ambient" where
  "white_noise_call lib n_samples seed amb =
     (let (rng, amb) = py_Random lib (Some seed) amb
      in (uniform_draws lib (-1) 1 (py_range n_samples) rng, amb))"

text \<open>
  The list \<^verbatim>\<open>white_noise(n_samples, seed)\<close> returns. It is the first component of
  \<open>white_noise_call\<close> in every ambient state, which the call leaves as it found it
  (section \<open>Noise source\<close>); the recipes below therefore use the list directly.
\<close>

definition white_noise :: "'g py_random \<Rightarrow> int \<Rightarrow> int \<Rightarrow> real list" where
  "white_noise lib n_samples seed =
     (let rng = new_Random lib seed
      in uniform_draws lib (-1) 1 (py_range n_samples) rng)"

section \<open>Envelope, mixer, normalizer\<close>

text \<open>\<^verbatim>\<open>apply_envelope(samples, attack, release)\<close>: two loops over a copy of the input.\<close>

definition apply_envelope :: "real list \<Rightarrow> real \<Rightarrow> real \<Rightarrow> py_error + real list" where
  "apply_envelope samples attack release =
     (let n = int (length samples)
      in py_bind (sample_count (Finite attack)) (\<lambda>attack_samples.
         py_bind (sample_count (Finite release)) (\<lambda>release_samples.
           case for_each
                  (\<lambda>i result. py_update result (int i)
                      (\<lambda>v. v * (real i / real_of_int attack_samples)))
                  (py_range attack_samples) samples of
             Inl e \<Rightarrow> Inl e
           | Inr result \<Rightarrow>
               for_each
                 (\<lambda>i result.
                    let idx = n - release_samples + int i
                    in py_update result idx
                         (\<lambda>v. v * ((real_of_int release_samples - real i)
                                   / real_of_int release_samples)))
                 (py_range release_samples) result)))"

text \<open>
  \<^verbatim>\<open>mix(*sample_lists, weights=None)\<close>: \<open>weights\<close> is \<open>None\<close> when the keyword is
  omitted; \<^verbatim>\<open>zip\<close> stops at the shorter of the two sequences.
\<close>

definition mix :: "real list list \<Rightarrow> real list option \<Rightarrow> py_error + real list" where
  "mix sample_lists weights =
     (case py_max (map length sample_lists) of
        Inl e \<Rightarrow> Inl e
      | Inr n \<Rightarrow>
          let weights = (case weights of
                           None \<Rightarrow> replicate (length sample_lists) (1 / real (length sample_lists))
                         | Some ws \<Rightarrow> ws);
              result = replicate n 0
          in for_each
               (\<lambda>(sl, w) result.
                  for_each (\<lambda>i result. py_update result (int i) (\<lambda>v. v + sl ! i * w))
                    [0..<length sl] result)
               (zip sample_lists weights) result)"

text \<open>\<^verbatim>\<open>normalize(samples, peak)\<close>; the guard constant is \<^verbatim>\<open>1e-9\<close>.\<close>

definition normalize :: "real list \<Rightarrow> real \<Rightarrow> py_error + real list" where
  "normalize samples peak =
     (case py_max (map abs samples) of
        Inl e \<Rightarrow> Inl e
      | Inr max_val \<Rightarrow>
          if max_val < 1 / 10 ^ 9 then Inr samples
          else let scale = peak / max_val in Inr (map (\<lambda>s. s * scale) samples))"

section \<open>Filters and oscillators\<close>

text \<open>
  \<^verbatim>\<open>lowpass_filter(samples, cutoff_hz)\<close>; the unused \<^verbatim>\<open>resonance\<close> argument is left out.
  The two float divisions raise on a zero divisor.
\<close>

definition lowpass_filter :: "real list \<Rightarrow> real \<Rightarrow> py_error + real list" where
  "lowpass_filter samples cutoff_hz =
     (if 2 * pi * cutoff_hz = 0 then Inl ZeroDivisionError
      else let rc = 1 / (2 * pi * cutoff_hz);
               dt = 1 / SAMPLE_RATE
           in if rc + dt = 0 then Inl ZeroDivisionError
              else let alpha = dt / (rc + dt)
                   in Inr (fst (append_loop
                                  (\<lambda>s prev. let y = prev + alpha * (s - prev) in (y, y))
                                  samples 0)))"

text \<open>\<^verbatim>\<open>highpass_filter(samples, cutoff_hz)\<close>; the carried state is \<open>(prev_x, prev_y)\<close>.\<close>

definition highpass_filter :: "real list \<Rightarrow> real \<Rightarrow> py_error + real list" where
  "highpass_filter samples cutoff_hz =
     (if 2 * pi * cutoff_hz = 0 then Inl ZeroDivisionError
      else let rc = 1 / (2 * pi * cutoff_hz);
               dt = 1 / SAMPLE_RATE
           in if rc + dt = 0 then Inl ZeroDivisionError
              else let alpha = rc / (rc + dt)
                   in Inr (fst (append_loop
                                  (\<lambda>s (prev_x, prev_y).
                                     let y = alpha * (prev_y + s - prev_x) in (y, (s, y)))
                                  samples (0, 0))))"

text \<open>\<^verbatim>\<open>bandpass_filter(samples, low_hz, high_hz)\<close>: lowpass at the high edge first.\<close>

definition bandpass_filter :: "real list \<Rightarrow> real \<Rightarrow> real \<Rightarrow> py_error + real list" where
  "bandpass_filter samples low_hz high_hz =
     py_bind (lowpass_filter samples high_hz) (\<lambda>lp. highpass_filter lp low_hz)"

text \<open>\<^verbatim>\<open>sine_wave(freq, n_samples, phase, amp)\<close>.\<close>

definition sine_wave :: "real \<Rightarrow> int \<Rightarrow> real \<Rightarrow> real \<Rightarrow> real list" where
  "sine_wave freq n_samples phase amp =
     map (\<lambda>i. amp * sin (2 * pi * freq * real i / SAMPLE_RATE + phase)) (py_range n_samples)"

text \<open>
  The wrap at the end of an oscillator loop body,
  \<^verbatim>\<open>if phase > W: phase -= W\<close>, and the absence of any wrap.
\<close>

definition wrap_at :: "real \<Rightarrow> real \<Rightarrow> real" where
  "wrap_at W phase = (if phase > W then phase - W else phase)"

definition no_wrap :: "real \<Rightarrow> real" where
  "no_wrap phase = phase"

text \<open>
  Eleven loops of the source wrap their phase accumulator. The body of each is defined
  with the wrap as a parameter \<open>wrap\<close>: the source is the instance \<open>wrap_at W\<close> for the
  threshold \<open>W\<close> of that loop, and the reference of the spec, which never reduces the
  phase, is the instance \<open>no_wrap\<close>.

  The loop of \<^verbatim>\<open>sine_wave_varying(freq_fn, n_samples, amp)\<close>; the source wraps at
  \<open>2 * pi\<close>.
\<close>

definition sine_wave_varying_body ::
  "(real \<Rightarrow> real) \<Rightarrow> (real \<Rightarrow> real) \<Rightarrow> real \<Rightarrow> nat \<Rightarrow> real \<Rightarrow> real \<times> real" where
  "sine_wave_varying_body wrap freq_fn amp i phase =
     (let t = real i / SAMPLE_RATE;
          freq = freq_fn t;
          s = amp * sin phase;
          phase = phase + 2 * pi * freq / SAMPLE_RATE;
          phase = wrap phase
      in (s, phase))"

definition sine_wave_varying :: "(real \<Rightarrow> real) \<Rightarrow> int \<Rightarrow> real \<Rightarrow> real list" where
  "sine_wave_varying freq_fn n_samples amp =
     fst (append_loop (sine_wave_varying_body (wrap_at (2 * pi)) freq_fn amp)
            (py_range n_samples) 0)"

definition sine_wave_varying_unwrapped :: "(real \<Rightarrow> real) \<Rightarrow> int \<Rightarrow> real \<Rightarrow> real list" where
  "sine_wave_varying_unwrapped freq_fn n_samples amp =
     fst (append_loop (sine_wave_varying_body no_wrap freq_fn amp) (py_range n_samples) 0)"

section \<open>Engine sounds\<close>

text \<open>
  The oscillator loop of \<^verbatim>\<open>gen_biplane_engine\<close>; the carried state is the phase and the
  generator \<^verbatim>\<open>rng\<close>. The source wraps at \<open>6 * pi\<close>.
\<close>

definition biplane_osc_body ::
  "'g py_random \<Rightarrow> (real \<Rightarrow> real) \<Rightarrow> nat \<Rightarrow> real \<times> 'g \<Rightarrow> real \<times> (real \<times> 'g)" where
  "biplane_osc_body lib wrap i = (\<lambda>(phase, rng).
     let t = real i / SAMPLE_RATE;
         base_freq = 95.0 + 20.0 * sin (2 * pi * 0.7 * t);
         (u, rng) = uniform lib (-1) 1 rng;
         irregularity = 1.0 + 0.08 * sin (2 * pi * 3.1 * t) + 0.03 * u;
         freq = base_freq * irregularity;
         s = 0.5 * sin phase + 0.25 * sin (2 * phase) + 0.15 * sin (3 * phase)
             + 0.08 * sin (4 * phase) + 0.04 * sin (6 * phase);
         phase = phase + 2 * pi * freq / SAMPLE_RATE;
         phase = wrap phase
     in (s, (phase, rng)))"

definition biplane_oscillator :: "'g py_random \<Rightarrow> int \<Rightarrow> real list" where
  "biplane_oscillator lib n =
     fst (append_loop (biplane_osc_body lib (wrap_at (6 * pi))) (py_range n)
            (0, new_Random lib 1))"

definition biplane_oscillator_unwrapped :: "'g py_random \<Rightarrow> int \<Rightarrow> real list" where
  "biplane_oscillator_unwrapped lib n =
     fst (append_loop (biplane_osc_body lib no_wrap) (py_range n) (0, new_Random lib 1))"

definition gen_biplane_engine :: "'g py_random \<Rightarrow> real \<Rightarrow> py_error + real list" where
  "gen_biplane_engine lib duration =
     py_bind (sample_count (Finite duration)) (\<lambda>n.
       let samples = biplane_oscillator lib n
       in py_bind (lowpass_filter (white_noise lib n 2) 200) (\<lambda>noise.
            let combined = map (\<lambda>i. samples ! i * 0.75 + noise ! i * 0.15) (py_range n);
                result = map (\<lambda>(i, s). let t = real i / SAMPLE_RATE;
                                             putter = 0.85 + 0.15 * sin (2 * pi * 14.0 * t)
                                         in s * putter)
                           (enumerate 0 combined)
            in py_bind (apply_envelope result (fl 0.05) (fl 0.05))
                 (\<lambda>shaped. normalize shaped 0.85)))"

text \<open>The oscillator loop of \<^verbatim>\<open>gen_prop_engine\<close>; the source wraps at \<open>10 * pi\<close>.\<close>

definition prop_osc_body :: "(real \<Rightarrow> real) \<Rightarrow> nat \<Rightarrow> real \<Rightarrow> real \<times> real" where
  "prop_osc_body wrap i phase =
     (let t = real i / SAMPLE_RATE;
          freq = 175.0 + 8.0 * sin (2 * pi * 0.4 * t);
          s = 0.45 * sin phase + 0.30 * sin (2 * phase) + 0.15 * sin (3 * phase)
              + 0.07 * sin (4 * phase) + 0.03 * sin (5 * phase);
          phase = phase + 2 * pi * freq / SAMPLE_RATE;
          phase = wrap phase
      in (s, phase))"

definition prop_oscillator :: "(real \<Rightarrow> real) \<Rightarrow> int \<Rightarrow> real list" where
  "prop_oscillator wrap n = fst (append_loop (prop_osc_body wrap) (py_range n) 0)"

definition gen_prop_engine :: "'g py_random \<Rightarrow> real \<Rightarrow> py_error + real list" where
  "gen_prop_engine lib duration =
     py_bind (sample_count (Finite duration)) (\<lambda>n.
       let samples = prop_oscillator (wrap_at (10 * pi)) n;
           result = map (\<lambda>(i, s). let t = real i / SAMPLE_RATE;
                                        mod' = 0.92 + 0.08 * sin (2 * pi * 8.5 * t)
                                    in s * mod')
                      (enumerate 0 samples)
       in py_bind (lowpass_filter (white_noise lib n 4) 400) (\<lambda>noise.
            let combined = map (\<lambda>i. result ! i * 0.88 + noise ! i * 0.08) (py_range n)
            in py_bind (apply_envelope combined (fl 0.05) (fl 0.05))
                 (\<lambda>shaped. normalize shaped 0.85)))"

text \<open>
  \<^verbatim>\<open>gen_bomber_engine\<close>: the inner loop adds into \<^verbatim>\<open>samples[i]\<close> and carries the phase,
  which the source wraps at \<open>8 * pi\<close>; the outer loop runs over
  \<^verbatim>\<open>enumerate(zip(freqs, phases))\<close>.
\<close>

definition bomber_inner_body ::
  "(real \<Rightarrow> real) \<Rightarrow> nat \<Rightarrow> real \<Rightarrow> nat \<Rightarrow> real list \<times> real
     \<Rightarrow> py_error + (real list \<times> real)" where
  "bomber_inner_body wrap fi base_freq i = (\<lambda>(samples, phase).
     let t = real i / SAMPLE_RATE;
         freq = base_freq + 3.0 * sin (2 * pi * 0.3 * t + real fi);
         s = 0.5 * sin phase + 0.25 * sin (2 * phase) + 0.12 * sin (3 * phase)
             + 0.08 * sin (4 * phase)
     in py_bind (py_update samples (int i) (\<lambda>v. v + s * 0.25)) (\<lambda>samples.
          let phase = phase + 2 * pi * freq / SAMPLE_RATE;
              phase = wrap phase
          in Inr (samples, phase)))"

definition bomber_outer_body ::
  "(real \<Rightarrow> real) \<Rightarrow> int \<Rightarrow> nat \<times> (real \<times> real) \<Rightarrow> real list \<Rightarrow> py_error + real list" where
  "bomber_outer_body wrap n = (\<lambda>(fi, (base_freq, init_phase)) samples.
     py_bind (for_each (bomber_inner_body wrap fi base_freq) (py_range n) (samples, init_phase))
       (\<lambda>(samples, phase). Inr samples))"

definition gen_bomber_engine :: "'g py_random \<Rightarrow> real \<Rightarrow> py_error + real list" where
  "gen_bomber_engine lib duration =
     py_bind (sample_count (Finite duration)) (\<lambda>n.
       let freqs = [68.0, 72.0, 76.0, 80.0];
           phases = [0.0, 0.5, 1.0, 1.5];
           samples = replicate (nat n) 0
       in py_bind (for_each (bomber_outer_body (wrap_at (8 * pi)) n)
                     (enumerate 0 (zip freqs phases)) samples)
            (\<lambda>samples.
            let result = map (\<lambda>(i, s). let t = real i / SAMPLE_RATE;
                                             throb = 0.80 + 0.20 * sin (2 * pi * 6.0 * t)
                                         in s * throb)
                           (enumerate 0 samples)
            in py_bind (lowpass_filter (white_noise lib n 5) 150) (\<lambda>noise.
                 let combined = map (\<lambda>i. result ! i * 0.82 + noise ! i * 0.12) (py_range n)
                 in py_bind (apply_envelope combined (fl 0.08) (fl 0.08))
                      (\<lambda>shaped. normalize shaped 0.85))))"

text \<open>The turbine whine of \<^verbatim>\<open>gen_jet_engine\<close>; the source wraps at \<open>4 * pi\<close>.\<close>

definition jet_whine_body :: "(real \<Rightarrow> real) \<Rightarrow> nat \<Rightarrow> real \<Rightarrow> real \<times> real" where
  "jet_whine_body wrap i phase =
     (let t = real i / SAMPLE_RATE;
          freq = 820 + 30 * sin (2 * pi * 0.6 * t);
          s = sin phase * 0.3 + sin (2 * phase) * 0.15;
          phase = phase + 2 * pi * freq / SAMPLE_RATE;
          phase = wrap phase
      in (s, phase))"

definition jet_whine :: "(real \<Rightarrow> real) \<Rightarrow> int \<Rightarrow> real list" where
  "jet_whine wrap n = fst (append_loop (jet_whine_body wrap) (py_range n) 0)"

definition gen_jet_engine :: "'g py_random \<Rightarrow> real \<Rightarrow> py_error + real list" where
  "gen_jet_engine lib duration =
     py_bind (sample_count (Finite duration)) (\<lambda>n.
       let noise = white_noise lib n 6
       in py_bind (bandpass_filter noise 2000 6000) (\<lambda>bp.
          py_bind (bandpass_filter bp 1500 8000) (\<lambda>bp2.
            let whine = jet_whine (wrap_at (4 * pi)) n
            in py_bind (lowpass_filter (white_noise lib n 7) 120) (\<lambda>rumble.
                 let combined = map (\<lambda>i. bp2 ! i * 0.55 + whine ! i * 0.25 + rumble ! i * 0.15)
                                  (py_range n);
                     result = map (\<lambda>(i, s). let t = real i / SAMPLE_RATE;
                                                  shimmer = 0.93 + 0.07 * sin (2 * pi * 47.0 * t)
                                              in s * shimmer)
                                (enumerate 0 combined)
                 in py_bind (apply_envelope result (fl 0.06) (fl 0.06))
                      (\<lambda>shaped. normalize shaped 0.85)))))"

text \<open>The rumble of \<^verbatim>\<open>gen_rocket_engine\<close>; the source wraps at \<open>6 * pi\<close>.\<close>

definition rocket_rumble_body :: "(real \<Rightarrow> real) \<Rightarrow> nat \<Rightarrow> real \<Rightarrow> real \<times> real" where
  "rocket_rumble_body wrap i phase =
     (let t = real i / SAMPLE_RATE;
          freq = 45.0 + 10 * sin (2 * pi * 0.8 * t);
          s = sin phase * 0.6 + sin (2 * phase) * 0.3 + sin (3 * phase) * 0.1;
          phase = phase + 2 * pi * freq / SAMPLE_RATE;
          phase = wrap phase
      in (s, phase))"

definition rocket_rumble :: "(real \<Rightarrow> real) \<Rightarrow> int \<Rightarrow> real list" where
  "rocket_rumble wrap n = fst (append_loop (rocket_rumble_body wrap) (py_range n) 0)"

definition gen_rocket_engine :: "'g py_random \<Rightarrow> real \<Rightarrow> py_error + real list" where
  "gen_rocket_engine lib duration =
     py_bind (sample_count (Finite duration)) (\<lambda>n.
       let noise1 = white_noise lib n 8
       in py_bind (lowpass_filter noise1 3000) (\<lambda>noise_lp.
          py_bind (bandpass_filter (white_noise lib n 9) 300 1200) (\<lambda>noise2.
            let rumble = rocket_rumble (wrap_at (6 * pi)) n;
                combined = map (\<lambda>i. noise_lp ! i * 0.45 + noise2 ! i * 0.30 + rumble ! i * 0.25)
                             (py_range n);
                result = map (\<lambda>(i, s). let t = real i / SAMPLE_RATE;
                                             flutter = 0.88 + 0.12 *
                                               (sin (2 * pi * 23.0 * t) * 0.5
                                                + sin (2 * pi * 37.0 * t) * 0.5)
                                         in s * flutter)
                           (enumerate 0 combined)
            in py_bind (apply_envelope result (fl 0.04) (fl 0.04))
                 (\<lambda>shaped. normalize shaped 0.85))))"

definition gen_wind :: "'g py_random \<Rightarrow> real \<Rightarrow> py_error + real list" where
  "gen_wind lib duration =
     py_bind (sample_count (Finite duration)) (\<lambda>n.
       py_bind (lowpass_filter (white_noise lib n 10) 400) (\<lambda>low_wind.
       py_bind (bandpass_filter (white_noise lib n 11) 200 1200) (\<lambda>mid_wind.
         let result = map (\<lambda>i. let t = real i / SAMPLE_RATE;
                                     gust = 0.75 + 0.15 * sin (2 * pi * 0.3 * t)
                                            + 0.10 * sin (2 * pi * 0.7 * t + 1.2);
                                     s = low_wind ! i * 0.65 + mid_wind ! i * 0.35
                                 in s * gust)
                        (py_range n)
         in py_bind (apply_envelope result (fl 0.15) (fl 0.15))
              (\<lambda>shaped. normalize shaped 0.6))))"

section \<open>Music tracks\<close>

text \<open>\<^verbatim>\<open>apply_lofi_filter(samples)\<close>: lowpass at 8000 Hz, then the soft clip.\<close>

definition apply_lofi_filter :: "real list \<Rightarrow> py_error + real list" where
  "apply_lofi_filter samples =
     py_bind (lowpass_filter samples 8000) (\<lambda>lp. Inr (map (\<lambda>s. tanh (s * 1.3) * 0.77) lp))"

text \<open>
  \<^verbatim>\<open>note_to_freq(note)\<close>, \<^verbatim>\<open>440.0 * (2 ** ((note - 69) / 12.0))\<close>, as the machine evaluates
  it: the integer \<open>note - 69\<close> is converted to a double, divided, the power is taken and
  the product is rounded. The product never raises; it may be an infinity.
\<close>

definition note_to_freq :: "int \<Rightarrow> py_error + pyfloat" where
  "note_to_freq note =
     py_bind (py_float (note - 69)) (\<lambda>d.
     py_bind (fdiv d (Finite 12.0)) (\<lambda>x.
     py_bind (py_pow2 x) (\<lambda>p.
       Inr (fmul (Finite 440.0) p))))"

text \<open>The value of the same expression in exact real arithmetic.\<close>

definition note_to_freq_exact :: "int \<Rightarrow> real" where
  "note_to_freq_exact note = 440 * (2 powr ((real_of_int note - 69) / 12))"

text \<open>The loop of \<^verbatim>\<open>gen_piano_note\<close>; the source wraps at \<open>12 * pi\<close>.\<close>

definition piano_note_body :: "(real \<Rightarrow> real) \<Rightarrow> real \<Rightarrow> real \<Rightarrow> nat \<Rightarrow> real \<Rightarrow> real \<times> real" where
  "piano_note_body wrap freq amp i phase =
     (let t = real i / SAMPLE_RATE;
          env = exp (- t * 3.5) * (1.0 - exp (- t * 60.0));
          s = sin phase * 0.50 + sin (2 * phase) * 0.25 + sin (3 * phase) * 0.12
              + sin (4 * phase) * 0.08 + sin (6 * phase) * 0.05;
          v = s * env * amp;
          phase = phase + 2 * pi * freq / SAMPLE_RATE;
          phase = wrap phase
      in (v, phase))"

definition piano_tone :: "(real \<Rightarrow> real) \<Rightarrow> real \<Rightarrow> real \<Rightarrow> int \<Rightarrow> real list" where
  "piano_tone wrap freq amp n = fst (append_loop (piano_note_body wrap freq amp) (py_range n) 0)"

text \<open>
  \<^verbatim>\<open>gen_piano_note(freq, duration, amp)\<close>. Its frequency and duration are computed by the
  tracks, so they are taken as they come. With an infinite frequency the first sample
  is still \<open>0\<close> (the phase starts at \<open>0\<close> and the envelope at \<open>0\<close>), the phase then becomes
  infinite and \<^verbatim>\<open>math.sin\<close> raises \<^verbatim>\<open>ValueError\<close> at the second sample.
\<close>

definition gen_piano_note :: "pyfloat \<Rightarrow> pyfloat \<Rightarrow> real \<Rightarrow> py_error + real list" where
  "gen_piano_note freq duration amp =
     py_bind (sample_count duration) (\<lambda>n.
       case freq of
         Finite f \<Rightarrow> Inr (piano_tone (wrap_at (12 * pi)) f amp n)
       | PosInf \<Rightarrow> if n \<le> 1 then Inr (replicate (nat n) 0) else Inl ValueError
       | NegInf \<Rightarrow> if n \<le> 1 then Inr (replicate (nat n) 0) else Inl ValueError
       | NaN \<Rightarrow> if n \<le> 1 then Inr (replicate (nat n) 0) else Inl NotModelled)"

definition gen_kick :: "real \<Rightarrow> py_error + real list" where
  "gen_kick duration =
     py_bind (sample_count (Finite duration)) (\<lambda>n.
       Inr (map (\<lambda>i. let t = real i / SAMPLE_RATE;
                          freq = 150 * exp (- t * 20);
                          env = exp (- t * 18);
                          s = sin (2 * pi * freq * t);
                          click = exp (- t * 200) * 0.5
                      in (s + click) * env)
              (py_range n)))"

text \<open>
  \<^verbatim>\<open>gen_hihat(duration, open_hat)\<close>: for an open hat the length comes from the constant
  \<^verbatim>\<open>0.15 * SAMPLE_RATE\<close>, not from \<open>duration\<close>.
\<close>

definition gen_hihat :: "'g py_random \<Rightarrow> real \<Rightarrow> bool \<Rightarrow> py_error + real list" where
  "gen_hihat lib duration open_hat =
     (let decay = (if \<not> open_hat then 2.0 else 12.0)
      in py_bind (py_int (if \<not> open_hat then fmul (Finite duration) (Finite SAMPLE_RATE)
                          else fmul (Finite (fl 0.15)) (Finite SAMPLE_RATE))) (\<lambda>n.
           let noise = white_noise lib n 20
           in py_bind (bandpass_filter noise 6000 16000) (\<lambda>hp.
                Inr (map (\<lambda>(i, s). let t = real i / SAMPLE_RATE;
                                        env = exp (- t * (decay * 10))
                                    in s * env * 0.4)
                       (enumerate 0 hp)))))"

definition snare_body :: "real list \<Rightarrow> nat \<Rightarrow> real \<Rightarrow> real \<times> real" where
  "snare_body bp i tone_phase =
     (let t = real i / SAMPLE_RATE;
          env = exp (- t * 25);
          tone = sin tone_phase * 0.3;
          v = (bp ! i * 0.7 + tone) * env * 0.6;
          tone_phase = tone_phase + 2 * pi * 200 / SAMPLE_RATE
      in (v, tone_phase))"

definition gen_snare :: "'g py_random \<Rightarrow> real \<Rightarrow> py_error + real list" where
  "gen_snare lib duration =
     py_bind (sample_count (Finite duration)) (\<lambda>n.
       let noise = white_noise lib n 25
       in py_bind (bandpass_filter noise 800 5000) (\<lambda>bp.
            Inr (fst (append_loop (snare_body bp) (py_range n) 0))))"

text \<open>
  \<^verbatim>\<open>overlay_samples(base, overlay, start_sample, amp)\<close>: the body of the loop over
  \<^verbatim>\<open>enumerate(overlay)\<close>, then the loop on a copy of \<open>base\<close>.
\<close>

definition overlay_body :: "int \<Rightarrow> real \<Rightarrow> nat \<times> real \<Rightarrow> real list \<Rightarrow> py_error + real list" where
  "overlay_body start_sample amp = (\<lambda>(i, s) result.
     let idx = start_sample + int i
     in if idx < int (length result)
        then py_update result idx (\<lambda>v. v + s * amp)
        else Inr result)"

definition overlay_samples :: "real list \<Rightarrow> real list \<Rightarrow> int \<Rightarrow> real \<Rightarrow> py_error + real list" where
  "overlay_samples base overlay start_sample amp =
     for_each (overlay_body start_sample amp) (enumerate 0 overlay) base"

text \<open>
  The three tracks share their loops. \<open>samples_per_beat\<close> is the local
  \<^verbatim>\<open>beat = SAMPLE_RATE * 60.0 / bpm\<close>; \<open>beats_in\<close> is the loop bound
  \<^verbatim>\<open>int(duration * bpm / 60)\<close> (or \<^verbatim>\<open>/ 30\<close>). The sample offset of an event is
  \<^verbatim>\<open>int(beat_off * beat)\<close> in the melody and bass loops (\<open>note_start\<close>),
  \<^verbatim>\<open>int(beat_idx * beat)\<close> in the drum loops (\<open>drum_start\<close>, the integer index being
  converted to a double) and \<^verbatim>\<open>int(beat_idx_h * beat / 2)\<close> in the half-beat hi-hat loops
  (\<open>hihat_start\<close>).
\<close>

definition samples_per_beat :: "real \<Rightarrow> py_error + pyfloat" where
  "samples_per_beat bpm = fdiv (fmul (Finite SAMPLE_RATE) (Finite 60.0)) (Finite bpm)"

definition beats_in :: "real \<Rightarrow> real \<Rightarrow> real \<Rightarrow> py_error + int" where
  "beats_in duration bpm per = py_bind (fdiv (fmul (Finite duration) (Finite bpm)) (Finite per)) py_int"

definition note_start :: "pyfloat \<Rightarrow> real \<Rightarrow> py_error + int" where
  "note_start beat beat_off = py_int (fmul (Finite beat_off) beat)"

definition drum_start :: "pyfloat \<Rightarrow> nat \<Rightarrow> py_error + int" where
  "drum_start beat beat_idx = py_bind (py_float (int beat_idx)) (\<lambda>b. py_int (fmul b beat))"

definition hihat_start :: "pyfloat \<Rightarrow> nat \<Rightarrow> py_error + int" where
  "hihat_start beat beat_idx_h =
     py_bind (py_float (int beat_idx_h)) (\<lambda>b. py_bind (fdiv (fmul b beat) (Finite 2)) py_int)"

text \<open>
  A note event is \<^verbatim>\<open>(beat_offset, note, duration_beats, amp)\<close>. The bodies of the loops
  take the computation of the sample offset as a parameter (\<open>note_at\<close>, \<open>drum_at\<close>,
  \<open>hihat_at\<close>); in the source it is \<open>note_start beat\<close>, \<open>drum_start beat\<close> and
  \<open>hihat_start beat\<close>.
\<close>

type_synonym note_event = "real \<times> int \<times> real \<times> real"

definition note_body ::
  "real \<Rightarrow> (real \<Rightarrow> py_error + int) \<Rightarrow> note_event \<Rightarrow> real list \<Rightarrow> py_error + real list" where
  "note_body bpm note_at = (\<lambda>(beat_off, note, dur_beats, amp) result.
     py_bind (note_to_freq note) (\<lambda>freq.
     py_bind (fdiv (fmul (Finite dur_beats) (Finite 60.0)) (Finite bpm)) (\<lambda>dur_s.
     py_bind (gen_piano_note freq dur_s amp) (\<lambda>tone.
     py_bind (note_at beat_off) (\<lambda>start.
       overlay_samples result tone start 1.0)))))"

text \<open>
  A drum loop \<^verbatim>\<open>for beat_idx in range(...): if <pattern>: start = int(beat_idx * beat);
  result = overlay_samples(result, hit, start, amp)\<close>.
\<close>

definition drum_body ::
  "(nat \<Rightarrow> bool) \<Rightarrow> (nat \<Rightarrow> py_error + int) \<Rightarrow> real list \<Rightarrow> real \<Rightarrow> nat \<Rightarrow> real list
     \<Rightarrow> py_error + real list" where
  "drum_body fires drum_at hit amp beat_idx result =
     (if fires beat_idx
      then py_bind (drum_at beat_idx) (\<lambda>start. overlay_samples result hit start amp)
      else Inr result)"

text \<open>The hi-hat loop of tracks 01 and 03, one hit every half beat.\<close>

definition hihat_body ::
  "(nat \<Rightarrow> real) \<Rightarrow> (nat \<Rightarrow> py_error + int) \<Rightarrow> real list \<Rightarrow> nat \<Rightarrow> real list
     \<Rightarrow> py_error + real list" where
  "hihat_body amp_of hihat_at hihat beat_idx_h result =
     py_bind (hihat_at beat_idx_h) (\<lambda>start.
       let amp_h = amp_of beat_idx_h
       in overlay_samples result hihat start amp_h)"






definition melody_notes_02 :: "note_event list" where
  "melody_notes_02 =
     [(0, 69, 1.0, 0.6), (1, 67, 0.5, 0.5), (1.5, 64, 0.5, 0.5), (2, 62, 1.5, 0.55),
      (3.5, 60, 0.5, 0.5), (4, 64, 1.0, 0.6), (5, 67, 0.75, 0.55), (5.75, 69, 1.25, 0.6),
      (7, 64, 1.0, 0.55), (8, 60, 0.5, 0.5), (8.5, 62, 0.5, 0.5), (9, 67, 1.0, 0.55),
      (10, 69, 1.5, 0.6), (11.5, 67, 1.5, 0.5)]"

definition bass_notes_02 :: "note_event list" where
  "bass_notes_02 =
     [(0, 45, 1.5, 0.45), (2, 43, 1.0, 0.40), (4, 45, 1.5, 0.45), (6, 40, 1.0, 0.40),
      (8, 45, 1.5, 0.45), (10, 43, 1.0, 0.40)]"

definition gen_lofi_track_02 :: "'g py_random \<Rightarrow> real \<Rightarrow> py_error + real list" where
  "gen_lofi_track_02 lib duration =
     py_bind (sample_count (Finite duration)) (\<lambda>n.
       let bpm = 68.0
       in py_bind (samples_per_beat bpm) (\<lambda>beat.
            let result = replicate (nat n) 0
            in py_bind (for_each (note_body bpm (note_start beat)) melody_notes_02 result) (\<lambda>result.
               py_bind (for_each (note_body bpm (note_start beat)) bass_notes_02 result) (\<lambda>result.
               py_bind (gen_kick (fl 0.25)) (\<lambda>kick.
               py_bind (beats_in duration bpm 60) (\<lambda>beats.
               py_bind (for_each
                          (drum_body (\<lambda>beat_idx. beat_idx mod 4 \<in> set [0, 2]) (drum_start beat)
                             kick 0.65)
                          (py_range beats) result) (\<lambda>result.
               py_bind (gen_snare lib (fl 0.15)) (\<lambda>snare.
               py_bind (beats_in duration bpm 60) (\<lambda>beats.
               py_bind (for_each
                          (drum_body (\<lambda>beat_idx. beat_idx mod 4 = 2) (drum_start beat) snare 0.55)
                          (py_range beats) result) (\<lambda>result.
               py_bind (gen_hihat lib (fl 0.08) True) (\<lambda>hihat.
               py_bind (beats_in duration bpm 60) (\<lambda>beats.
               py_bind (for_each
                          (drum_body (\<lambda>beat_idx. beat_idx mod 2 = 1) (drum_start beat) hihat 0.30)
                          (py_range beats) result) (\<lambda>result.
               py_bind (apply_lofi_filter result) (\<lambda>result.
               py_bind (apply_envelope result (fl 0.1) (fl 0.1)) (\<lambda>shaped.
                 normalize shaped 0.80)))))))))))))))"

definition melody_notes_03 :: "note_event list" where
  "melody_notes_03 =
     [(0, 72, 0.75, 0.6), (0.75, 74, 0.5, 0.55), (1.25, 72, 0.5, 0.5), (1.75, 69, 0.75, 0.55),
      (2.5, 67, 0.5, 0.5), (3, 65, 1.0, 0.6), (4, 69, 0.5, 0.55), (4.5, 72, 1.0, 0.6),
      (5.5, 74, 0.75, 0.55), (6.25, 72, 0.5, 0.5), (6.75, 67, 0.75, 0.55), (7.5, 65, 0.5, 0.5),
      (8, 72, 1.0, 0.6), (9, 69, 0.5, 0.55), (9.5, 67, 0.5, 0.5), (10, 65, 1.5, 0.6),
      (11.5, 67, 0.5, 0.5), (12, 69, 1.0, 0.55), (13, 65, 1.0, 0.5)]"

definition bass_notes_03 :: "note_event list" where
  "bass_notes_03 =
     [(0, 53, 1.0, 0.45), (2, 55, 1.0, 0.40), (4, 53, 1.0, 0.45), (6, 57, 1.0, 0.40),
      (8, 53, 1.0, 0.45), (10, 55, 1.0, 0.40), (12, 53, 2.0, 0.45)]"

definition gen_lofi_track_03 :: "'g py_random \<Rightarrow> real \<Rightarrow> py_error + real list" where
  "gen_lofi_track_03 lib duration =
     py_bind (sample_count (Finite duration)) (\<lambda>n.
       let bpm = 80.0
       in py_bind (samples_per_beat bpm) (\<lambda>beat.
            let result = replicate (nat n) 0
            in py_bind (for_each (note_body bpm (note_start beat)) melody_notes_03 result) (\<lambda>result.
               py_bind (for_each (note_body bpm (note_start beat)) bass_notes_03 result) (\<lambda>result.
               py_bind (gen_kick (fl 0.25)) (\<lambda>kick.
               py_bind (beats_in duration bpm 60) (\<lambda>beats.
               py_bind (for_each
                          (drum_body (\<lambda>beat_idx. beat_idx mod 4 \<in> set [0, 3]) (drum_start beat)
                             kick 0.60)
                          (py_range beats) result) (\<lambda>result.
               py_bind (gen_snare lib (fl 0.15)) (\<lambda>snare.
               py_bind (beats_in duration bpm 60) (\<lambda>beats.
               py_bind (for_each
                          (drum_body (\<lambda>beat_idx. beat_idx mod 4 \<in> set [1, 2]) (drum_start beat)
                             snare 0.45)
                          (py_range beats) result) (\<lambda>result.
               py_bind (gen_hihat lib (fl 0.08) False) (\<lambda>hihat.
               py_bind (beats_in duration bpm 30) (\<lambda>half_beats.
               py_bind (for_each
                          (hihat_body
                             (\<lambda>beat_idx_h. if beat_idx_h mod 4 \<in> set [0, 2] then 0.30 else 0.18)
                             (hihat_start beat) hihat)
                          (py_range half_beats) result) (\<lambda>result.
               py_bind (apply_lofi_filter result) (\<lambda>result.
               py_bind (apply_envelope result (fl 0.1) (fl 0.1)) (\<lambda>shaped.
                 normalize shaped 0.80)))))))))))))))"

section \<open>Sound effects\<close>

text \<open>The sweep of \<^verbatim>\<open>gen_clue_pop\<close>; the source wraps at \<open>6 * pi\<close>.\<close>

definition clue_pop_body :: "(real \<Rightarrow> real) \<Rightarrow> real \<Rightarrow> nat \<Rightarrow> real \<Rightarrow> real \<times> real" where
  "clue_pop_body wrap duration i phase =
     (let t = real i / SAMPLE_RATE;
          freq = 200 * exp (t * ln (800 / 200) / duration);
          env = exp (- t * 18) * (1 - exp (- t * 200));
          s = sin phase * 0.7 + sin (2 * phase) * 0.2 + sin (3 * phase) * 0.1;
          v = s * env;
          phase = phase + 2 * pi * freq / SAMPLE_RATE;
          phase = wrap phase
      in (v, phase))"

definition clue_pop_sweep :: "(real \<Rightarrow> real) \<Rightarrow> real \<Rightarrow> int \<Rightarrow> real list" where
  "clue_pop_sweep wrap duration n =
     fst (append_loop (clue_pop_body wrap duration) (py_range n) 0)"

definition gen_clue_pop :: "real \<Rightarrow> py_error + real list" where
  "gen_clue_pop duration =
     py_bind (sample_count (Finite duration)) (\<lambda>n.
       let samples = clue_pop_sweep (wrap_at (6 * pi)) duration n
       in normalize samples 0.85)"

text \<open>
  \<^verbatim>\<open>gen_landing_success\<close>: the loop over the four chord notes, each with its own
  oscillator loop, which the source wraps at \<open>8 * pi\<close>.
\<close>

definition landing_note_body ::
  "(real \<Rightarrow> real) \<Rightarrow> real \<Rightarrow> real \<Rightarrow> nat \<Rightarrow> real \<Rightarrow> real \<times> real" where
  "landing_note_body wrap freq amp i phase =
     (let t = real i / SAMPLE_RATE;
          env = exp (- t * 5.0) * (1 - exp (- t * 80));
          s = sin phase * 0.5 + sin (2 * phase) * 0.3 + sin (3 * phase) * 0.15
              + sin (4 * phase) * 0.05;
          v = s * env * amp;
          phase = phase + 2 * pi * freq / SAMPLE_RATE;
          phase = wrap phase
      in (v, phase))"

definition landing_note :: "(real \<Rightarrow> real) \<Rightarrow> real \<Rightarrow> real \<Rightarrow> int \<Rightarrow> real list" where
  "landing_note wrap freq amp n =
     fst (append_loop (landing_note_body wrap freq amp) (py_range n) 0)"

definition landing_chord_body ::
  "real \<Rightarrow> real \<times> real \<times> real \<Rightarrow> real list \<Rightarrow> py_error + real list" where
  "landing_chord_body duration = (\<lambda>(t_start, freq, amp) result.
     let note_dur = fsub (Finite duration) (Finite t_start)
     in py_bind (sample_count note_dur) (\<lambda>note_n.
          let note_samples = landing_note (wrap_at (8 * pi)) freq amp note_n
          in py_bind (sample_count (Finite t_start)) (\<lambda>start_idx.
               overlay_samples result note_samples start_idx 1.0)))"

definition gen_landing_success :: "real \<Rightarrow> py_error + real list" where
  "gen_landing_success duration =
     py_bind (sample_count (Finite duration)) (\<lambda>n.
       let result = replicate (nat n) 0;
           chord_notes = [(fl 0.0, 523.25, 0.35), (fl 0.15, 659.25, 0.35),
                          (fl 0.30, 783.99, 0.35), (fl 0.50, 1046.50, 0.40)]
       in py_bind (for_each (landing_chord_body duration) chord_notes result)
            (\<lambda>result. normalize result 0.85))"

text \<open>
  \<^verbatim>\<open>gen_coin_collect\<close>: the carried state is \<open>(phase1, phase2, phase3)\<close>. The closing loop
  \<^verbatim>\<open>for p in [phase1, phase2, phase3]: if p > 2 * math.pi: p -= 2 * math.pi\<close> rebinds only
  its own variable \<open>p\<close>; \<open>p_values\<close> are the values \<open>p\<close> takes, which nothing reads, and the
  three accumulators leave the iteration as the increments left them.
\<close>

definition coin_collect_body ::
  "nat \<Rightarrow> real \<times> real \<times> real \<Rightarrow> real \<times> (real \<times> real \<times> real)" where
  "coin_collect_body i = (\<lambda>(phase1, phase2, phase3).
     let freq1 = 1318.5;
         freq2 = 2093.0;
         freq3 = 880.0;
         t = real i / SAMPLE_RATE;
         env = exp (- t * 15) * (1 - exp (- t * 300));
         s = sin phase1 * 0.5 + sin phase2 * 0.3 + sin phase3 * 0.2;
         v = s * env;
         phase1 = phase1 + 2 * pi * freq1 / SAMPLE_RATE;
         phase2 = phase2 + 2 * pi * freq2 / SAMPLE_RATE;
         phase3 = phase3 + 2 * pi * freq3 / SAMPLE_RATE;
         p_values = map (wrap_at (2 * pi)) [phase1, phase2, phase3]
     in (v, (phase1, phase2, phase3)))"

definition coin_collect_loop :: "int \<Rightarrow> real list \<times> (real \<times> real \<times> real)" where
  "coin_collect_loop n = append_loop coin_collect_body (py_range n) (0.0, 0.0, 0.0)"

definition gen_coin_collect :: "real \<Rightarrow> py_error + real list" where
  "gen_coin_collect duration =
     py_bind (sample_count (Finite duration)) (\<lambda>n.
       let samples = fst (coin_collect_loop n)
       in normalize samples 0.85)"

text \<open>
  \<^verbatim>\<open>gen_ui_click\<close>: the second loop adds the tonal component into \<^verbatim>\<open>samples[i]\<close> and
  carries an unwrapped phase.
\<close>

definition ui_click_tone_body ::
  "nat \<Rightarrow> real list \<times> real \<Rightarrow> py_error + (real list \<times> real)" where
  "ui_click_tone_body i = (\<lambda>(samples, phase).
     let freq = 1200.0;
         t = real i / SAMPLE_RATE;
         env = exp (- t * 150)
     in py_bind (py_update samples (int i) (\<lambda>v. v + sin phase * env * 0.4)) (\<lambda>samples.
          let phase = phase + 2 * pi * freq / SAMPLE_RATE
          in Inr (samples, phase)))"

definition gen_ui_click :: "'g py_random \<Rightarrow> real \<Rightarrow> py_error + real list" where
  "gen_ui_click lib duration =
     py_bind (sample_count (Finite duration)) (\<lambda>n.
       let noise = white_noise lib n 30
       in py_bind (bandpass_filter noise 800 4000) (\<lambda>bp.
            let samples = map (\<lambda>(i, s). let t = real i / SAMPLE_RATE;
                                              env = exp (- t * 120) * (1 - exp (- t * 1000))
                                          in s * env * 0.7)
                            (enumerate 0 bp)
            in py_bind (for_each ui_click_tone_body (py_range n) (samples, 0.0))
                 (\<lambda>(samples, phase). normalize samples 0.80)))"

text \<open>The sweep of \<^verbatim>\<open>gen_altitude_change\<close>; the source wraps at \<open>2 * pi\<close>.\<close>

definition altitude_change_body ::
  "(real \<Rightarrow> real) \<Rightarrow> real \<Rightarrow> real list \<Rightarrow> nat \<Rightarrow> real \<Rightarrow> real \<times> real" where
  "altitude_change_body wrap duration noise i phase =
     (let t = real i / SAMPLE_RATE;
          freq = 300 * exp (t * ln (1800 / 300) / duration);
          env = sin (pi * t / duration);
          tone = sin phase * 0.4;
          noise_val = noise ! i * 0.3;
          v = (tone + noise_val) * env;
          phase = phase + 2 * pi * freq / SAMPLE_RATE;
          phase = wrap phase
      in (v, phase))"

definition altitude_sweep :: "(real \<Rightarrow> real) \<Rightarrow> real \<Rightarrow> real list \<Rightarrow> int \<Rightarrow> real list" where
  "altitude_sweep wrap duration noise n =
     fst (append_loop (altitude_change_body wrap duration noise) (py_range n) 0)"

definition gen_altitude_change :: "'g py_random \<Rightarrow> real \<Rightarrow> py_error + real list" where
  "gen_altitude_change lib duration =
     py_bind (sample_count (Finite duration)) (\<lambda>n.
       let noise = white_noise lib n 35;
           result = altitude_sweep (wrap_at (2 * pi)) duration noise n
       in normalize result 0.82)"

text \<open>
  \<^verbatim>\<open>gen_boost_start\<close>; the source wraps at \<open>8 * pi\<close>. Inside the loop \<open>0 \<le> t\<close> and
  \<open>0 < duration\<close>, so the base of \<^verbatim>\<open>(t / duration) ** 0.5\<close> is never negative and the
  power is \<open>powr\<close>.
\<close>

definition boost_start_body ::
  "(real \<Rightarrow> real) \<Rightarrow> real \<Rightarrow> real list \<Rightarrow> nat \<Rightarrow> real \<Rightarrow> real \<times> real" where
  "boost_start_body wrap duration noise_hp i phase =
     (let t = real i / SAMPLE_RATE;
          freq = 200 * exp (t * ln (1200 / 200) / duration);
          env = (t / duration) powr 0.5 * exp (- ((t - duration) ^ 2) * 8);
          env = max 0.0 env;
          s = sin phase * 0.45 + sin (2 * phase) * 0.30 + sin (3 * phase) * 0.15
              + sin (4 * phase) * 0.10;
          noise_amp = (t / duration) * 0.25;
          result_s = s * 0.75 + noise_hp ! i * noise_amp;
          v = result_s * env;
          phase = phase + 2 * pi * freq / SAMPLE_RATE;
          phase = wrap phase
      in (v, phase))"

definition boost_sweep :: "(real \<Rightarrow> real) \<Rightarrow> real \<Rightarrow> real list \<Rightarrow> int \<Rightarrow> real list" where
  "boost_sweep wrap duration noise_hp n =
     fst (append_loop (boost_start_body wrap duration noise_hp) (py_range n) 0)"

definition gen_boost_start :: "'g py_random \<Rightarrow> real \<Rightarrow> py_error + real list" where
  "gen_boost_start lib duration =
     py_bind (sample_count (Finite duration)) (\<lambda>n.
       let noise = white_noise lib n 40
       in py_bind (highpass_filter noise 800) (\<lambda>noise_hp.
            let samples = boost_sweep (wrap_at (8 * pi)) duration noise_hp n
            in normalize samples 0.85))"

section \<open>Notions used in the statements and proofs\<close>

text \<open>
  Two phases are related when they differ by an integer multiple of \<open>W\<close>: the relation
  between the wrapped accumulator of a loop and the accumulator of its unwrapped
  reference.
\<close>

definition phase_related :: "real \<Rightarrow> real \<Rightarrow> real \<Rightarrow> bool" where
  "phase_related W p q = (\<exists>m::int. p = q - W * real_of_int m)"

text \<open>A call returns a buffer of \<open>n\<close> samples: it does not raise, and the list has length \<open>n\<close>.\<close>

definition returns_buffer :: "py_error + real list \<Rightarrow> nat \<Rightarrow> bool" where
  "returns_buffer r n = (case r of Inl e \<Rightarrow> False | Inr buf \<Rightarrow> length buf = n)"

text \<open>A call raises or returns a buffer of \<open>n\<close> samples.\<close>

definition length_if_returned :: "py_error + real list \<Rightarrow> nat \<Rightarrow> bool" where
  "length_if_returned r n = (case r of Inl e \<Rightarrow> True | Inr buf \<Rightarrow> length buf = n)"

section \<open>Facts of double-precision arithmetic\<close>

lemma round_half_even_of_int: "round_half_even (real_of_int m) = m"
  by (simp add: round_half_even_def)

lemma round_half_even_error: "\<bar>real_of_int (round_half_even y) - y\<bar> \<le> 1 / 2"
  unfolding round_half_even_def Let_def by (auto; linarith)


lemma round_half_even_small: "\<bar>y\<bar> < 1 / 2 \<Longrightarrow> round_half_even y = 0"
  unfolding round_half_even_def Let_def by (auto; linarith)

lemma floor_log2_eq:
  assumes "2 powr real_of_int e \<le> x" "x < 2 powr (real_of_int e + 1)"
  shows "\<lfloor>log 2 x\<rfloor> = e"
proof -
  have pos: "0 < x" using assms(1) by (smt (verit) powr_gt_zero)
  have a: "real_of_int e \<le> log 2 x" using assms(1) pos by (simp add: le_log_iff)
  have b: "log 2 x < real_of_int e + 1" using assms(2) pos by (simp add: log_less_iff)
  show ?thesis using a b by linarith
qed

lemma fl_zero: "fl 0 = 0"
  by (simp add: fl_def)

lemma fl_normal:
  assumes "2 powr real_of_int e \<le> \<bar>x\<bar>" "\<bar>x\<bar> < 2 powr (real_of_int e + 1)" "- 1022 \<le> e"
  shows "fl x = real_of_int (round_half_even (x / 2 powr (real_of_int e - 52))) * 2 powr (real_of_int e - 52)"
proof -
  have nz: "x \<noteq> 0" using assms(1) by (smt (verit) powr_gt_zero)
  have "\<lfloor>log 2 \<bar>x\<bar>\<rfloor> = e" using floor_log2_eq [OF assms(1) assms(2)] .
  then show ?thesis using nz assms(3) by (simp add: fl_def Let_def max_def)
qed

lemma fl_eval_ge1:
  assumes "2 ^ k \<le> \<bar>x\<bar>" "\<bar>x\<bar> < 2 * 2 ^ k"
  shows "fl x = real_of_int (round_half_even (x * 2 ^ 52 / 2 ^ k)) * 2 ^ k / 2 ^ 52"
proof -
  have q: "2 powr (real_of_int (int k) - 52) = (2::real) ^ k / 2 ^ 52"
    by (simp add: powr_diff powr_realpow)
  have "fl x = real_of_int (round_half_even (x / 2 powr (real_of_int (int k) - 52))) * 2 powr (real_of_int (int k) - 52)"
    by (rule fl_normal) (use assms in \<open>simp_all add: powr_add powr_realpow\<close>)
  then show ?thesis unfolding q by simp
qed

lemma fl_eval_lt1:
  assumes "1 / 2 ^ k \<le> \<bar>x\<bar>" "\<bar>x\<bar> < 2 / 2 ^ k" "k \<le> 1022"
  shows "fl x = real_of_int (round_half_even (x * 2 ^ (k + 52))) / 2 ^ (k + 52)"
proof -
  have p: "2 powr real_of_int (- int k) = 1 / (2::real) ^ k"
    by (simp add: powr_minus powr_realpow divide_inverse)
  have q: "2 powr (real_of_int (- int k) - 52) = 1 / (2::real) ^ (k + 52)"
  proof -
    have "real_of_int (- int k) - 52 = - real (k + 52)" by simp
    then show ?thesis by (simp only: powr_minus powr_realpow) (simp add: divide_inverse)
  qed
  have "fl x = real_of_int (round_half_even (x / 2 powr (real_of_int (- int k) - 52))) * 2 powr (real_of_int (- int k) - 52)"
  proof (rule fl_normal)
    show "2 powr real_of_int (- int k) \<le> \<bar>x\<bar>" unfolding p using assms(1) .
    have "2 powr (real_of_int (- int k) + 1) = 2 / (2::real) ^ k"
      by (simp only: powr_add p) simp
    then show "\<bar>x\<bar> < 2 powr (real_of_int (- int k) + 1)" using assms(2) by simp
    show "- 1022 \<le> - int k" using assms(3) by simp
  qed
  then show ?thesis unfolding q by simp
qed

lemma powr_neg_nat: "2 powr (- real n) = 1 / (2::real) ^ n"
  by (simp add: powr_minus powr_realpow divide_inverse)

text \<open>The unit in the last place used for \<open>x\<close>, and the error of rounding.\<close>

lemma fl_ulp:
  assumes "x \<noteq> 0"
  shows "\<exists>u. 0 < u \<and> u \<le> \<bar>x\<bar> / 2 ^ 52 + 1 / 2 ^ 1074
            \<and> fl x = real_of_int (round_half_even (x / u)) * u"
proof -
  define e where "e = \<lfloor>log 2 \<bar>x\<bar>\<rfloor>"
  define u where "u = 2 powr (real_of_int (max e (- 1022)) - 52)"
  have pos: "0 < \<bar>x\<bar>" using assms by simp
  have "real_of_int e \<le> log 2 \<bar>x\<bar>" unfolding e_def by simp
  then have le: "2 powr real_of_int e \<le> \<bar>x\<bar>" using pos by (simp add: le_log_iff)
  have u: "0 < u" unfolding u_def by simp
  have "u \<le> \<bar>x\<bar> / 2 ^ 52 + 1 / 2 ^ 1074"
  proof (cases "- 1022 \<le> e")
    case True
    then have "u = 2 powr real_of_int e / 2 ^ 52"
      unfolding u_def by (simp add: max_def powr_diff)
    then have "u \<le> \<bar>x\<bar> / 2 ^ 52" using le by (simp add: divide_right_mono)
    then show ?thesis by (smt (verit) zero_less_power divide_pos_pos)
  next
    case False
    then have "max e (- 1022) = - 1022" by simp
    then have "u = 2 powr (- 1074)" unfolding u_def by simp
    also have "\<dots> = 1 / 2 ^ 1074"
      using powr_neg_nat [of 1074] by simp
    finally have "u = 1 / 2 ^ 1074" .
    then show ?thesis using pos by simp
  qed
  moreover have "fl x = real_of_int (round_half_even (x / u)) * u"
    using assms by (simp add: fl_def Let_def e_def u_def)
  ultimately show ?thesis using u by blast
qed

lemma fl_error: "\<bar>fl x - x\<bar> \<le> \<bar>x\<bar> / 2 ^ 53 + 1 / 2 ^ 1075"
proof (cases "x = 0")
  case True
  then show ?thesis by (simp add: fl_zero)
next
  case False
  from fl_ulp [OF False] obtain u where u: "0 < u" "u \<le> \<bar>x\<bar> / 2 ^ 52 + 1 / 2 ^ 1074"
    "fl x = real_of_int (round_half_even (x / u)) * u" by blast
  have "fl x - x = (real_of_int (round_half_even (x / u)) - x / u) * u"
    using u(1,3) by (simp add: algebra_simps)
  then have "\<bar>fl x - x\<bar> = \<bar>real_of_int (round_half_even (x / u)) - x / u\<bar> * u"
    using u(1) by (simp add: abs_mult)
  also have "\<dots> \<le> 1 / 2 * u"
    using round_half_even_error [of "x / u"] u(1) by (intro mult_right_mono) simp_all
  also have "\<dots> \<le> 1 / 2 * (\<bar>x\<bar> / 2 ^ 52 + 1 / 2 ^ 1074)" using u(2) by simp
  also have "\<dots> = \<bar>x\<bar> / 2 ^ 53 + 1 / 2 ^ 1075" by simp
  finally show ?thesis .
qed


lemma fl_bound: "\<bar>fl x\<bar> \<le> 2 * \<bar>x\<bar> + 1"
proof -
  have a: "\<bar>x\<bar> / 2 ^ 53 \<le> \<bar>x\<bar>" by (simp add: divide_le_eq)
  have b: "(1::real) / 2 ^ 1075 \<le> 1" by simp
  from fl_error [of x] a b show ?thesis by linarith
qed

lemma fl_underflow:
  assumes "\<bar>x\<bar> < 1 / 2 ^ 1075"
  shows "fl x = 0"
proof (cases "x = 0")
  case True
  then show ?thesis by (simp add: fl_zero)
next
  case False
  then have pos: "0 < \<bar>x\<bar>" by simp
  have "\<bar>x\<bar> < 2 powr (- 1075)"
    using assms powr_neg_nat [of 1075] by simp
  then have "log 2 \<bar>x\<bar> < - 1075" using pos by (simp add: log_less_iff)
  then have "\<lfloor>log 2 \<bar>x\<bar>\<rfloor> < - 1075" by linarith
  then have m: "max \<lfloor>log 2 \<bar>x\<bar>\<rfloor> (- 1022) = - 1022" by simp
  have u: "2 powr (real_of_int (- 1022) - 52) = 1 / 2 ^ 1074"
    using powr_neg_nat [of 1074] by simp
  have "\<bar>x / (1 / 2 ^ 1074)\<bar> < 1 / 2" using assms by (simp add: abs_mult)
  then have "round_half_even (x / (1 / 2 ^ 1074)) = 0" by (rule round_half_even_small)
  then show ?thesis using False by (simp only: fl_def m Let_def u) simp
qed

lemma fl_exact:
  assumes x: "x = real_of_int m * 2 powr real_of_int j" and m: "\<bar>m\<bar> < 2 ^ 53" and j: "- 1074 \<le> j"
  shows "fl x = x"
proof (cases "m = 0")
  case True
  then show ?thesis using x by (simp add: fl_zero)
next
  case False
  have nz: "x \<noteq> 0" using False x by simp
  define e where "e = \<lfloor>log 2 \<bar>x\<bar>\<rfloor>"
  define q where "q = max e (- 1022) - 52"
  have ax: "\<bar>x\<bar> = real_of_int \<bar>m\<bar> * 2 powr real_of_int j" using x by (simp add: abs_mult)
  have "real_of_int \<bar>m\<bar> < 2 ^ 53" using m by (metis of_int_less_numeral_power_cancel_iff)
  then have "\<bar>x\<bar> < 2 ^ 53 * 2 powr real_of_int j" unfolding ax by simp
  also have "\<dots> = 2 powr (53 + real_of_int j)"
    by (simp add: powr_add powr_realpow [symmetric])
  finally have "\<bar>x\<bar> < 2 powr (53 + real_of_int j)" .
  then have "log 2 \<bar>x\<bar> < 53 + real_of_int j" using nz by (simp add: log_less_iff)
  then have "e < 53 + j" unfolding e_def by linarith
  then have qj: "q \<le> j" unfolding q_def using j by simp
  define k where "k = nat (j - q)"
  have jq: "real_of_int j = real_of_int q + real k" unfolding k_def using qj by simp
  have p: "2 powr real_of_int j = 2 powr real_of_int q * 2 ^ k"
    unfolding jq by (simp add: powr_add powr_realpow)
  have "x / 2 powr real_of_int q = real_of_int (m * 2 ^ k)"
    unfolding x p by simp
  then have r: "round_half_even (x / 2 powr real_of_int q) = m * 2 ^ k"
    by (simp only: round_half_even_of_int)
  have "fl x = real_of_int (round_half_even (x / 2 powr real_of_int q)) * 2 powr real_of_int q"
    using nz by (simp add: fl_def Let_def e_def q_def)
  also have "\<dots> = real_of_int (m * 2 ^ k) * 2 powr real_of_int q" by (simp only: r)
  also have "\<dots> = x" unfolding x p by simp
  finally show ?thesis .
qed

lemma fl_of_int:
  assumes "\<bar>i\<bar> < 2 ^ 53"
  shows "fl (real_of_int i) = real_of_int i"
  by (rule fl_exact [where m = i and j = 0]) (use assms in simp_all)

lemma to_double_finite: "\<not> double_overflow x \<Longrightarrow> to_double x = Finite (fl x)"
  by (simp add: to_double_def)


lemma fl_exact_div:
  assumes "\<bar>m\<bar> < 2 ^ 53" and "k \<le> 1074"
  shows "fl (real_of_int m / 2 ^ k) = real_of_int m / 2 ^ k"
proof (rule fl_exact [where m = m and j = "- int k"])
  show "real_of_int m / 2 ^ k = real_of_int m * 2 powr real_of_int (- int k)"
    using powr_neg_nat [of k] by simp
  show "\<bar>m\<bar> < 2 ^ 53" by (rule assms(1))
  show "- 1074 \<le> - int k" using assms(2) by simp
qed

lemma fl_exact_mult:
  assumes "\<bar>m\<bar> < 2 ^ 53"
  shows "fl (real_of_int m * 2 ^ k) = real_of_int m * 2 ^ k"
proof (rule fl_exact [where m = m and j = "int k"])
  show "real_of_int m * 2 ^ k = real_of_int m * 2 powr real_of_int (int k)"
    by (simp add: powr_realpow)
  show "\<bar>m\<bar> < 2 ^ 53" by (rule assms)
  show "- 1074 \<le> int k" by simp
qed

lemma fmul_Finite:
  "\<not> double_overflow (x * y) \<Longrightarrow> fmul (Finite x) (Finite y) = Finite (fl (x * y))"
  by (simp add: to_double_def)

lemma py_int_to_double_overflow: "double_overflow x \<Longrightarrow> py_int (to_double x) = Inl OverflowError"
  by (simp add: to_double_def)

lemma sample_count_Finite:
  "sample_count (Finite seconds) =
     (if double_overflow (seconds * 44100) then Inl OverflowError
      else Inr (py_trunc (fl (seconds * 44100))))"
  by (simp add: sample_count_def SAMPLE_RATE_def to_double_def)

lemma nat_py_trunc: "nat (py_trunc x) = nat \<lfloor>x\<rfloor>"
proof (cases "0 \<le> x")
  case True
  then show ?thesis by (simp add: py_trunc_def)
next
  case False
  then have "\<lceil>x\<rceil> \<le> 0" and "\<lfloor>x\<rfloor> \<le> 0" by (simp_all add: ceiling_le_zero floor_le_zero)
  then show ?thesis using False by (simp add: py_trunc_def)
qed

lemma py_trunc_nonneg: "0 \<le> x \<Longrightarrow> 0 \<le> py_trunc x"
  by (simp add: py_trunc_def)


text \<open>The doubles denoted by the decimal literals of the source, and their sample counts.\<close>

lemma fl_00: "fl 0.0 = 0"
  by (simp add: fl_zero)

lemma count_00: "sample_count (Finite (fl 0.0)) = Inr 0"
  by (simp add: fl_zero sample_count_Finite double_overflow_def py_trunc_def)

lemma fl_005: "fl 0.05 = 3602879701896397 / 72057594037927936"
  by (subst fl_eval_lt1 [where k = 5]) (simp_all add: round_half_even_def)

lemma count_005: "sample_count (Finite (fl 0.05)) = Inr 2205"
proof -
  have a: "fl (3602879701896397 / 72057594037927936 * 44100) = 2205"
    by (subst fl_eval_ge1 [where k = 11]) (simp_all add: round_half_even_def)
  have b: "\<not> double_overflow (3602879701896397 / 72057594037927936 * 44100)" by (simp add: double_overflow_def)
  have c: "py_trunc (2205) = 2205" by (simp add: py_trunc_def)
  show ?thesis
    by (simp only: sample_count_def fmul.simps SAMPLE_RATE_def fl_005 to_double_def b if_False a
          py_int.simps c)
qed

lemma fl_008: "fl 0.08 = 5764607523034235 / 72057594037927936"
  by (subst fl_eval_lt1 [where k = 4]) (simp_all add: round_half_even_def)

lemma count_008: "sample_count (Finite (fl 0.08)) = Inr 3528"
proof -
  have a: "fl (5764607523034235 / 72057594037927936 * 44100) = 3528"
    by (subst fl_eval_ge1 [where k = 11]) (simp_all add: round_half_even_def)
  have b: "\<not> double_overflow (5764607523034235 / 72057594037927936 * 44100)" by (simp add: double_overflow_def)
  have c: "py_trunc (3528) = 3528" by (simp add: py_trunc_def)
  show ?thesis
    by (simp only: sample_count_def fmul.simps SAMPLE_RATE_def fl_008 to_double_def b if_False a
          py_int.simps c)
qed

lemma fl_006: "fl 0.06 = 1080863910568919 / 18014398509481984"
  by (subst fl_eval_lt1 [where k = 5]) (simp_all add: round_half_even_def)

lemma count_006: "sample_count (Finite (fl 0.06)) = Inr 2646"
proof -
  have a: "fl (1080863910568919 / 18014398509481984 * 44100) = 2646"
    by (subst fl_eval_ge1 [where k = 11]) (simp_all add: round_half_even_def)
  have b: "\<not> double_overflow (1080863910568919 / 18014398509481984 * 44100)" by (simp add: double_overflow_def)
  have c: "py_trunc (2646) = 2646" by (simp add: py_trunc_def)
  show ?thesis
    by (simp only: sample_count_def fmul.simps SAMPLE_RATE_def fl_006 to_double_def b if_False a
          py_int.simps c)
qed

lemma fl_004: "fl 0.04 = 5764607523034235 / 144115188075855872"
  by (subst fl_eval_lt1 [where k = 5]) (simp_all add: round_half_even_def)

lemma count_004: "sample_count (Finite (fl 0.04)) = Inr 1764"
proof -
  have a: "fl (5764607523034235 / 144115188075855872 * 44100) = 1764"
    by (subst fl_eval_ge1 [where k = 10]) (simp_all add: round_half_even_def)
  have b: "\<not> double_overflow (5764607523034235 / 144115188075855872 * 44100)" by (simp add: double_overflow_def)
  have c: "py_trunc (1764) = 1764" by (simp add: py_trunc_def)
  show ?thesis
    by (simp only: sample_count_def fmul.simps SAMPLE_RATE_def fl_004 to_double_def b if_False a
          py_int.simps c)
qed

lemma fl_015: "fl 0.15 = 5404319552844595 / 36028797018963968"
  by (subst fl_eval_lt1 [where k = 3]) (simp_all add: round_half_even_def)

lemma count_015: "sample_count (Finite (fl 0.15)) = Inr 6615"
proof -
  have a: "fl (5404319552844595 / 36028797018963968 * 44100) = 6615"
    by (subst fl_eval_ge1 [where k = 12]) (simp_all add: round_half_even_def)
  have b: "\<not> double_overflow (5404319552844595 / 36028797018963968 * 44100)" by (simp add: double_overflow_def)
  have c: "py_trunc (6615) = 6615" by (simp add: py_trunc_def)
  show ?thesis
    by (simp only: sample_count_def fmul.simps SAMPLE_RATE_def fl_015 to_double_def b if_False a
          py_int.simps c)
qed

lemma fl_01: "fl 0.1 = 3602879701896397 / 36028797018963968"
  by (subst fl_eval_lt1 [where k = 4]) (simp_all add: round_half_even_def)

lemma count_01: "sample_count (Finite (fl 0.1)) = Inr 4410"
proof -
  have a: "fl (3602879701896397 / 36028797018963968 * 44100) = 4410"
    by (subst fl_eval_ge1 [where k = 12]) (simp_all add: round_half_even_def)
  have b: "\<not> double_overflow (3602879701896397 / 36028797018963968 * 44100)" by (simp add: double_overflow_def)
  have c: "py_trunc (4410) = 4410" by (simp add: py_trunc_def)
  show ?thesis
    by (simp only: sample_count_def fmul.simps SAMPLE_RATE_def fl_01 to_double_def b if_False a
          py_int.simps c)
qed

lemma fl_025: "fl 0.25 = 1 / 4"
  by (subst fl_eval_lt1 [where k = 2]) (simp_all add: round_half_even_def)

lemma count_025: "sample_count (Finite (fl 0.25)) = Inr 11025"
proof -
  have a: "fl (1 / 4 * 44100) = 11025"
    by (subst fl_eval_ge1 [where k = 13]) (simp_all add: round_half_even_def)
  have b: "\<not> double_overflow (1 / 4 * 44100)" by (simp add: double_overflow_def)
  have c: "py_trunc (11025) = 11025" by (simp add: py_trunc_def)
  show ?thesis
    by (simp only: sample_count_def fmul.simps SAMPLE_RATE_def fl_025 to_double_def b if_False a
          py_int.simps c)
qed

lemma fl_030: "fl 0.30 = 5404319552844595 / 18014398509481984"
  by (subst fl_eval_lt1 [where k = 2]) (simp_all add: round_half_even_def)

lemma count_030: "sample_count (Finite (fl 0.30)) = Inr 13230"
proof -
  have a: "fl (5404319552844595 / 18014398509481984 * 44100) = 13230"
    by (subst fl_eval_ge1 [where k = 13]) (simp_all add: round_half_even_def)
  have b: "\<not> double_overflow (5404319552844595 / 18014398509481984 * 44100)" by (simp add: double_overflow_def)
  have c: "py_trunc (13230) = 13230" by (simp add: py_trunc_def)
  show ?thesis
    by (simp only: sample_count_def fmul.simps SAMPLE_RATE_def fl_030 to_double_def b if_False a
          py_int.simps c)
qed

lemma fl_050: "fl 0.50 = 1 / 2"
  by (subst fl_eval_lt1 [where k = 1]) (simp_all add: round_half_even_def)

lemma count_050: "sample_count (Finite (fl 0.50)) = Inr 22050"
proof -
  have a: "fl (1 / 2 * 44100) = 22050"
    by (subst fl_eval_ge1 [where k = 14]) (simp_all add: round_half_even_def)
  have b: "\<not> double_overflow (1 / 2 * 44100)" by (simp add: double_overflow_def)
  have c: "py_trunc (22050) = 22050" by (simp add: py_trunc_def)
  show ?thesis
    by (simp only: sample_count_def fmul.simps SAMPLE_RATE_def fl_050 to_double_def b if_False a
          py_int.simps c)
qed

lemma fl_035: "fl 0.35 = 3152519739159347 / 9007199254740992"
  by (subst fl_eval_lt1 [where k = 2]) (simp_all add: round_half_even_def)

lemma count_035: "sample_count (Finite (fl 0.35)) = Inr 15434"
proof -
  have a: "fl (3152519739159347 / 9007199254740992 * 44100) = 8485480987361279 / 549755813888"
    by (subst fl_eval_ge1 [where k = 13]) (simp_all add: round_half_even_def)
  have b: "\<not> double_overflow (3152519739159347 / 9007199254740992 * 44100)" by (simp add: double_overflow_def)
  have c: "py_trunc (8485480987361279 / 549755813888) = 15434" by (simp add: py_trunc_def)
  show ?thesis
    by (simp only: sample_count_def fmul.simps SAMPLE_RATE_def fl_035 to_double_def b if_False a
          py_int.simps c)
qed

lemma fl_04: "fl 0.4 = 3602879701896397 / 9007199254740992"
  by (subst fl_eval_lt1 [where k = 2]) (simp_all add: round_half_even_def)

lemma count_04: "sample_count (Finite (fl 0.4)) = Inr 17640"
proof -
  have a: "fl (3602879701896397 / 9007199254740992 * 44100) = 17640"
    by (subst fl_eval_ge1 [where k = 14]) (simp_all add: round_half_even_def)
  have b: "\<not> double_overflow (3602879701896397 / 9007199254740992 * 44100)" by (simp add: double_overflow_def)
  have c: "py_trunc (17640) = 17640" by (simp add: py_trunc_def)
  show ?thesis
    by (simp only: sample_count_def fmul.simps SAMPLE_RATE_def fl_04 to_double_def b if_False a
          py_int.simps c)
qed

lemma fl_09: "fl 0.9 = 8106479329266893 / 9007199254740992"
  by (subst fl_eval_lt1 [where k = 1]) (simp_all add: round_half_even_def)

lemma count_09: "sample_count (Finite (fl 0.9)) = Inr 39690"
proof -
  have a: "fl (8106479329266893 / 9007199254740992 * 44100) = 39690"
    by (subst fl_eval_ge1 [where k = 15]) (simp_all add: round_half_even_def)
  have b: "\<not> double_overflow (8106479329266893 / 9007199254740992 * 44100)" by (simp add: double_overflow_def)
  have c: "py_trunc (39690) = 39690" by (simp add: py_trunc_def)
  show ?thesis
    by (simp only: sample_count_def fmul.simps SAMPLE_RATE_def fl_09 to_double_def b if_False a
          py_int.simps c)
qed

lemma fl_06: "fl 0.6 = 5404319552844595 / 9007199254740992"
  by (subst fl_eval_lt1 [where k = 1]) (simp_all add: round_half_even_def)

lemma count_06: "sample_count (Finite (fl 0.6)) = Inr 26460"
proof -
  have a: "fl (5404319552844595 / 9007199254740992 * 44100) = 26460"
    by (subst fl_eval_ge1 [where k = 14]) (simp_all add: round_half_even_def)
  have b: "\<not> double_overflow (5404319552844595 / 9007199254740992 * 44100)" by (simp add: double_overflow_def)
  have c: "py_trunc (26460) = 26460" by (simp add: py_trunc_def)
  show ?thesis
    by (simp only: sample_count_def fmul.simps SAMPLE_RATE_def fl_06 to_double_def b if_False a
          py_int.simps c)
qed

lemma fl_08: "fl 0.8 = 3602879701896397 / 4503599627370496"
  by (subst fl_eval_lt1 [where k = 1]) (simp_all add: round_half_even_def)

lemma count_08: "sample_count (Finite (fl 0.8)) = Inr 35280"
proof -
  have a: "fl (3602879701896397 / 4503599627370496 * 44100) = 35280"
    by (subst fl_eval_ge1 [where k = 15]) (simp_all add: round_half_even_def)
  have b: "\<not> double_overflow (3602879701896397 / 4503599627370496 * 44100)" by (simp add: double_overflow_def)
  have c: "py_trunc (35280) = 35280" by (simp add: py_trunc_def)
  show ?thesis
    by (simp only: sample_count_def fmul.simps SAMPLE_RATE_def fl_08 to_double_def b if_False a
          py_int.simps c)
qed

lemma fl_400002: "fl 4.00002 = 4503622145368633 / 1125899906842624"
  by (subst fl_eval_ge1 [where k = 2]) (simp_all add: round_half_even_def)

lemma count_400002: "sample_count (Finite (fl 4.00002)) = Inr 176400"
proof -
  have a: "fl (4503622145368633 / 1125899906842624 * 44100) = 6061088153404441 / 34359738368"
    by (subst fl_eval_ge1 [where k = 17]) (simp_all add: round_half_even_def)
  have b: "\<not> double_overflow (4503622145368633 / 1125899906842624 * 44100)" by (simp add: double_overflow_def)
  have c: "py_trunc (6061088153404441 / 34359738368) = 176400" by (simp add: py_trunc_def)
  show ?thesis
    by (simp only: sample_count_def fmul.simps SAMPLE_RATE_def fl_400002 to_double_def b if_False a
          py_int.simps c)
qed

section \<open>Properties of the primitives\<close>

lemma py_index_nat: "i < n \<Longrightarrow> py_index n (int i) = Inr i"
  by (simp add: py_index_def)

lemma py_update_nat: "i < length xs \<Longrightarrow> py_update xs (int i) f = Inr (xs[i := f (xs ! i)])"
  by (simp add: py_update_def py_index_nat)

lemma for_each_snoc:
  "for_each body (xs @ [x]) s =
     (case for_each body xs s of Inl e \<Rightarrow> Inl e | Inr s' \<Rightarrow> body x s')"
  by (induction xs arbitrary: s) (auto split: sum.splits)

lemma for_each_update_range:
  assumes "off + m \<le> length xs"
    and "\<And>i res. i < m \<Longrightarrow> length res = length xs \<Longrightarrow>
           body i res = Inr (res[off + i := F i (res ! (off + i))])"
  shows "for_each body [k..<m] xs =
           Inr (map (\<lambda>j. if off + k \<le> j \<and> j < off + m then F (j - off) (xs ! j) else xs ! j)
                  [0..<length xs])"
  using assms
proof (induction m)
  case 0
  have "xs = map (\<lambda>j. if off + k \<le> j \<and> j < off + 0 then F (j - off) (xs ! j) else xs ! j)
                  [0..<length xs]"
    by (intro nth_equalityI) auto
  then show ?case by simp
next
  case (Suc m)
  show ?case
  proof (cases "k \<le> m")
    case False
    then have "[k..<Suc m] = []" by simp
    moreover have "xs = map (\<lambda>j. if off + k \<le> j \<and> j < off + Suc m then F (j - off) (xs ! j) else xs ! j)
                  [0..<length xs]"
      using False by (intro nth_equalityI) auto
    ultimately show ?thesis by simp
  next
    case True
    let ?r = "map (\<lambda>j. if off + k \<le> j \<and> j < off + m then F (j - off) (xs ! j) else xs ! j)
                  [0..<length xs]"
    have ih: "for_each body [k..<m] xs = Inr ?r"
      using Suc by simp
    have at: "?r ! (off + m) = xs ! (off + m)" using Suc.prems(1) by simp
    have upd: "body m ?r = Inr (?r[off + m := F m (xs ! (off + m))])"
      using Suc.prems(2) [of m ?r] at by simp
    have eq: "?r[off + m := F m (xs ! (off + m))] =
          map (\<lambda>j. if off + k \<le> j \<and> j < off + Suc m then F (j - off) (xs ! j) else xs ! j)
                  [0..<length xs]"
    proof (intro nth_equalityI)
      show "length (?r[off + m := F m (xs ! (off + m))]) =
            length (map (\<lambda>j. if off + k \<le> j \<and> j < off + Suc m then F (j - off) (xs ! j) else xs ! j)
                  [0..<length xs])" by simp
    next
      fix i assume "i < length (?r[off + m := F m (xs ! (off + m))])"
      then have i: "i < length xs" by simp
      show "?r[off + m := F m (xs ! (off + m))] ! i =
            map (\<lambda>j. if off + k \<le> j \<and> j < off + Suc m then F (j - off) (xs ! j) else xs ! j)
                  [0..<length xs] ! i"
      proof (cases "i = off + m")
        case True
        then show ?thesis using i \<open>k \<le> m\<close> by simp
      next
        case False
        then have "(i < off + Suc m) = (i < off + m)" by auto
        then show ?thesis using i False by (simp add: nth_list_update)
      qed
    qed
    have "[k..<Suc m] = [k..<m] @ [m]" using True by simp
    then show ?thesis using ih upd eq by (simp add: for_each_snoc)
  qed
qed


lemma py_index_nonneg:
  "0 \<le> i \<Longrightarrow> i < int n \<Longrightarrow> py_index n i = Inr (nat i)"
  by (simp add: py_index_def)

lemma overlay_loop_from:
  assumes "0 \<le> start"
  shows "\<exists>r. for_each (overlay_body start amp) (enumerate k ov) res = Inr r
           \<and> length r = length res
           \<and> (\<forall>i < length res. r ! i =
                (if nat start + k \<le> i \<and> i < nat start + k + length ov
                 then res ! i + amp * ov ! (i - nat start - k) else res ! i))"
proof (induction ov arbitrary: k res)
  case Nil
  show ?case by simp
next
  case (Cons s ov)
  let ?j = "nat start + k"
  show ?case
  proof (cases "?j < length res")
    case True
    let ?res' = "res[?j := res ! ?j + s * amp]"
    have idx: "start + int k < int (length res)" using True assms by linarith
    have pj: "py_index (length res) (start + int k) = Inr ?j"
      using py_index_nonneg [of "start + int k" "length res"] idx assms
      by (simp add: nat_add_distrib)
    have step: "overlay_body start amp (k, s) res = Inr ?res'"
      using idx pj by (simp add: overlay_body_def py_update_def)
    from Cons.IH [of "Suc k" ?res'] obtain r where
      r: "for_each (overlay_body start amp) (enumerate (Suc k) ov) ?res' = Inr r"
         "length r = length ?res'"
         "\<forall>i < length ?res'. r ! i =
            (if nat start + Suc k \<le> i \<and> i < nat start + Suc k + length ov
             then ?res' ! i + amp * ov ! (i - nat start - Suc k) else ?res' ! i)"
      by blast
    have "\<forall>i < length res. r ! i =
            (if ?j \<le> i \<and> i < ?j + length (s # ov)
             then res ! i + amp * (s # ov) ! (i - nat start - k) else res ! i)"
    proof (intro allI impI)
      fix i assume i: "i < length res"
      show "r ! i = (if ?j \<le> i \<and> i < ?j + length (s # ov)
             then res ! i + amp * (s # ov) ! (i - nat start - k) else res ! i)"
      proof (cases "i = ?j")
        case True
        then show ?thesis using r(3) i by (simp add: mult.commute)
      next
        case False
        have "i - nat start - k = Suc (i - nat start - Suc k)" if "?j < i"
          using that by linarith
        then show ?thesis using r(3) i False by (auto simp: nth_Cons')
      qed
    qed
    then show ?thesis using r(1,2) step by simp
  next
    case False
    have nidx: "\<not> start + int k < int (length res)" using False assms by linarith
    have step: "overlay_body start amp (k, s) res = Inr res"
      using nidx by (simp add: overlay_body_def)
    from Cons.IH [of "Suc k" res] obtain r where
      r: "for_each (overlay_body start amp) (enumerate (Suc k) ov) res = Inr r"
         "length r = length res"
         "\<forall>i < length res. r ! i =
            (if nat start + Suc k \<le> i \<and> i < nat start + Suc k + length ov
             then res ! i + amp * ov ! (i - nat start - Suc k) else res ! i)"
      by blast
    have "\<forall>i < length res. r ! i = res ! i"
      using r(3) False by auto
    moreover have "\<forall>i < length res. \<not> (?j \<le> i)" using False by auto
    ultimately show ?thesis using r(1,2) step by simp
  qed
qed

lemma overlay_samples_spec:
  assumes "0 \<le> start"
  shows "\<exists>r. overlay_samples base ov start amp = Inr r
           \<and> length r = length base
           \<and> (\<forall>i < length base. r ! i =
                (if nat start \<le> i \<and> i < nat start + length ov
                 then base ! i + amp * ov ! (i - nat start) else base ! i))"
proof -
  from overlay_loop_from [OF assms, of amp 0 ov base] obtain r where
    r: "for_each (overlay_body start amp) (enumerate 0 ov) base = Inr r"
       "length r = length base"
       "\<forall>i < length base. r ! i =
          (if nat start + 0 \<le> i \<and> i < nat start + 0 + length ov
           then base ! i + amp * ov ! (i - nat start - 0) else base ! i)"
    by blast
  have "\<forall>i < length base. r ! i =
          (if nat start \<le> i \<and> i < nat start + length ov
           then base ! i + amp * ov ! (i - nat start) else base ! i)"
    using r(3) by simp
  with r(1,2) show ?thesis unfolding overlay_samples_def by blast
qed

text \<open>
  C5. For \<open>start \<ge> 0\<close>, \<open>overlay_samples base overlay start amp\<close> returns a buffer of the
  length of \<open>base\<close> holding \<open>base[i] + amp * overlay[i - start]\<close> for
  \<open>start \<le> i < min (len base) (start + len overlay)\<close> and \<open>base[i]\<close> elsewhere; two
  one-sample unit events overlaid at the same offset of a silent buffer give exactly 2
  there.
\<close>

theorem overlay_samples_additive:
  "0 \<le> start \<longrightarrow>
     (\<exists>r. overlay_samples base ov start amp = Inr r
        \<and> length r = length base
        \<and> (\<forall>i < length base. r ! i =
              (if nat start \<le> i \<and> i < min (length base) (nat start + length ov)
               then base ! i + amp * ov ! (i - nat start) else base ! i)))
   \<and> (0 \<le> start \<and> nat start < n \<longrightarrow>
        (\<exists>r1 r2. overlay_samples (replicate n 0) [1] start 1 = Inr r1
           \<and> overlay_samples r1 [1] start 1 = Inr r2
           \<and> r2 ! nat start = 2))"
proof (intro conjI impI)
  assume s: "0 \<le> start"
  from overlay_samples_spec [OF s, of base ov amp]
  show "\<exists>r. overlay_samples base ov start amp = Inr r
        \<and> length r = length base
        \<and> (\<forall>i < length base. r ! i =
              (if nat start \<le> i \<and> i < min (length base) (nat start + length ov)
               then base ! i + amp * ov ! (i - nat start) else base ! i))"
    by auto
next
  assume a: "0 \<le> start \<and> nat start < n"
  then have s: "0 \<le> start" and lt: "nat start < n" by auto
  from overlay_samples_spec [OF s, of "replicate n 0" "[1]" 1] obtain r1 where
    r1: "overlay_samples (replicate n 0) [1] start 1 = Inr r1" "length r1 = n"
        "\<forall>i < n. r1 ! i = (if nat start \<le> i \<and> i < nat start + 1
               then replicate n 0 ! i + 1 * [1] ! (i - nat start) else replicate n 0 ! i)"
    by auto
  from overlay_samples_spec [OF s, of r1 "[1]" 1] obtain r2 where
    r2: "overlay_samples r1 [1] start 1 = Inr r2" "length r2 = n"
        "\<forall>i < n. r2 ! i = (if nat start \<le> i \<and> i < nat start + 1
               then r1 ! i + 1 * [1] ! (i - nat start) else r1 ! i)"
    using r1(2) by auto
  have "r1 ! nat start = 1" using r1(3) lt by simp
  then have "r2 ! nat start = 2" using r2(3) lt by simp
  with r1(1) r2(1) show "\<exists>r1 r2. overlay_samples (replicate n 0) [1] start 1 = Inr r1
           \<and> overlay_samples r1 [1] start 1 = Inr r2
           \<and> r2 ! nat start = 2" by blast
qed

theorem overlay_samples_additive_witness:
  "(0::int) \<le> 1 \<and> nat 1 < (3::nat)
   \<and> overlay_samples [5, 6, 7] [1, 2, 3] 1 2 = Inr [5, 8, 11]
   \<and> (\<exists>r. overlay_samples [5, 6, 7] [1, 2, 3] 1 2 = Inr r
          \<and> length r = 3 \<and> r ! 0 = 5 \<and> r ! 1 = 8 \<and> r ! 2 = 11)
   \<and> (\<exists>r1 r2. overlay_samples (replicate 3 0) [1] 1 1 = Inr r1
          \<and> overlay_samples r1 [1] 1 1 = Inr r2 \<and> r2 ! 1 = 2)"
proof -
  note t = overlay_samples_additive [of 1 "[5, 6, 7]" "[1, 2, 3]" 2 3]
  from t obtain r where
    r: "overlay_samples [5, 6, 7] [1, 2, 3] 1 2 = Inr r" "length r = 3"
       "\<forall>i < 3. r ! i =
          (if nat 1 \<le> i \<and> i < min 3 (nat 1 + 3)
           then [5, 6, 7] ! i + 2 * [1, 2, 3] ! (i - nat 1) else [5, 6, 7] ! i)"
    by auto
  have "r ! 0 = 5" "r ! 1 = 8" "r ! 2 = 11"
    using r(3) [rule_format, of 0] r(3) [rule_format, of 1] r(3) [rule_format, of 2]
    by simp_all
  with r(1,2) have a: "\<exists>r. overlay_samples [5, 6, 7] [1, 2, 3] 1 2 = Inr r
          \<and> length r = 3 \<and> r ! 0 = 5 \<and> r ! 1 = 8 \<and> r ! 2 = 11"
    by blast
  have b: "\<exists>r1 r2. overlay_samples (replicate 3 0) [1] 1 1 = Inr r1
          \<and> overlay_samples r1 [1] 1 1 = Inr r2 \<and> r2 ! 1 = 2"
    using t by simp
  have c: "overlay_samples [5, 6, 7] [1, 2, 3] 1 2 = Inr [5, 8, 11]"
    by (simp add: overlay_samples_def overlay_body_def py_update_def py_index_def enumerate_eq_zip)
  from a b c show ?thesis by simp
qed

section \<open>Note frequencies\<close>

lemma note_to_freq_exact_octave: "note_to_freq_exact (n + 12) = 2 * note_to_freq_exact n"
proof -
  have e: "(real_of_int (n + 12) - 69) / 12 = (real_of_int n - 69) / 12 + 1"
    by (simp add: field_simps)
  have "2 powr ((real_of_int (n + 12) - 69) / 12) = 2 powr ((real_of_int n - 69) / 12) * 2"
    unfolding e by (simp add: powr_add)
  then show ?thesis by (simp add: note_to_freq_exact_def)
qed

lemma note_to_freq_exact_strict_mono:
  "m < n \<Longrightarrow> note_to_freq_exact m < note_to_freq_exact n"
  by (simp add: note_to_freq_exact_def powr_less_mono divide_strict_right_mono)

lemma note_to_freq_exact_pos: "0 < note_to_freq_exact n"
  by (simp add: note_to_freq_exact_def)

text \<open>The steps of \<open>note_to_freq\<close> for a note whose value does not leave the doubles.\<close>

lemma py_float_small: "\<bar>i\<bar> < 2 ^ 53 \<Longrightarrow> py_float i = Inr (Finite (real_of_int i))"
proof -
  assume a: "\<bar>i\<bar> < 2 ^ 53"
  then have "\<bar>real_of_int i\<bar> < 2 ^ 53" by (metis of_int_abs of_int_less_numeral_power_cancel_iff)
  then have "\<not> double_overflow (real_of_int i)" by (simp add: double_overflow_def)
  then show ?thesis by (simp add: py_float_def fl_of_int [OF a])
qed

lemma note_to_freq_steps:
  assumes i: "\<bar>note - 69\<bar> < 2 ^ 53"
    and x: "X = fl (real_of_int (note - 69) / 12)"
    and no: "\<not> double_overflow (real_of_int (note - 69) / 12)"
    and np: "\<not> double_overflow (2 powr X)"
  shows "note_to_freq note = Inr (fmul (Finite 440) (Finite (fl (2 powr X))))"
  using no np by (simp add: note_to_freq_def py_float_small [OF i] py_bind_def to_double_def x)

lemma note_to_freq_69: "note_to_freq 69 = Inr (Finite 440)"
proof -
  have a: "fl 1 = 1" using fl_of_int [of 1] by simp
  have b: "fl 440 = 440" using fl_of_int [of 440] by simp
  show ?thesis
    by (simp add: note_to_freq_def py_float_def py_bind_def to_double_def double_overflow_def
          fl_zero a b)
qed

text \<open>Far below the MIDI range the power underflows to zero.\<close>

lemma note_to_freq_underflow:
  assumes "- (2 ^ 40) \<le> note" and "note \<le> - 12900"
  shows "note_to_freq note = Inr (Finite 0)"
proof -
  define x where "x = real_of_int (note - 69) / 12"
  define X where "X = fl x"
  have xr: "x \<le> - 1080" "- (2 ^ 40) \<le> x" using assms unfolding x_def by simp_all
  have i: "\<bar>note - 69\<bar> < 2 ^ 53" using assms by simp
  have no: "\<not> double_overflow x" using xr by (simp add: double_overflow_def)
  have "\<bar>x\<bar> / 2 ^ 53 \<le> 1 / 2" using xr by simp
  moreover have "(1::real) / 2 ^ 1075 \<le> 1 / 2" by simp
  ultimately have "\<bar>X - x\<bar> \<le> 1" using fl_error [of x] unfolding X_def by linarith
  then have X: "X \<le> - 1079" using xr by linarith
  have "2 powr X \<le> 2 powr (- 1079)" using X by (intro powr_mono) simp_all
  also have "\<dots> = 1 / 2 ^ 1079" using powr_neg_nat [of 1079] by simp
  finally have p: "2 powr X \<le> 1 / 2 ^ 1079" .
  have pos: "0 < 2 powr X" by simp
  have np: "\<not> double_overflow (2 powr X)" using p pos by (simp add: double_overflow_def)
  have "\<bar>2 powr X\<bar> < 1 / 2 ^ 1075" using p pos by simp
  then have z: "fl (2 powr X) = 0" by (rule fl_underflow)
  have "note_to_freq note = Inr (fmul (Finite 440) (Finite (fl (2 powr X))))"
    by (rule note_to_freq_steps [OF i]) (use no np in \<open>simp_all add: X_def x_def\<close>)
  then show ?thesis by (simp add: z to_double_def double_overflow_def fl_zero)
qed

lemma pow2_near_one:
  fixes t :: real
  assumes "\<bar>t\<bar> \<le> 1"
  shows "\<bar>2 powr t - 1\<bar> \<le> 2 * \<bar>t\<bar>"
proof -
  define z where "z = t * ln 2"
  have l: "0 < ln (2::real)" "ln (2::real) < 1" using ln_2_less_1 by simp_all
  have zt: "\<bar>z\<bar> \<le> \<bar>t\<bar>"
  proof -
    have "\<bar>z\<bar> = \<bar>t\<bar> * ln 2" unfolding z_def using l by (simp add: abs_mult)
    also have "\<dots> \<le> \<bar>t\<bar> * 1" using l by (intro mult_left_mono) simp_all
    finally show ?thesis by simp
  qed
  have e: "2 powr t = exp z" unfolding z_def by (simp add: powr_def)
  have "\<bar>exp z - 1\<bar> \<le> 2 * \<bar>z\<bar>"
  proof (cases "0 \<le> z")
    case True
    have z1: "z \<le> 1" using zt assms True by linarith
    have "exp z \<le> 1 + z + z\<^sup>2" using True z1 by (rule exp_bound)
    moreover have "z\<^sup>2 \<le> z" using True z1 by (simp add: power2_eq_square mult_left_le)
    moreover have "1 \<le> exp z" using True by simp
    ultimately show ?thesis using True by linarith
  next
    case False
    have "1 + z \<le> exp z" by (rule exp_ge_add_one_self)
    moreover have "exp z \<le> 1" using False by simp
    ultimately show ?thesis using False by linarith
  qed
  then show ?thesis unfolding e using zt by linarith
qed

text \<open>The rounding error of \<open>note_to_freq\<close> on the MIDI range.\<close>

lemma note_to_freq_midi:
  assumes "0 \<le> note" and "note \<le> 127"
  shows "\<exists>f. note_to_freq note = Inr (Finite f)
           \<and> \<bar>f - note_to_freq_exact note\<bar> \<le> note_to_freq_exact note / 2 ^ 44"
proof -
  define x where "x = real_of_int (note - 69) / 12"
  define X where "X = fl x"
  define Y where "Y = 2 powr X"
  define P where "P = fl Y"
  define E where "E = 2 powr x"
  have xr: "- 6 \<le> x" "x \<le> 6" using assms unfolding x_def by simp_all
  have i: "\<bar>note - 69\<bar> < 2 ^ 53" using assms by simp
  have no: "\<not> double_overflow x" using xr by (simp add: double_overflow_def)
  have "\<bar>x\<bar> / 2 ^ 53 \<le> 6 / 2 ^ 53" using xr by (intro divide_right_mono) simp_all
  moreover have "(1::real) / 2 ^ 1075 \<le> 2 / 2 ^ 53" by simp
  ultimately have "\<bar>X - x\<bar> \<le> 8 / 2 ^ 53" using fl_error [of x] unfolding X_def by linarith
  then have t: "\<bar>X - x\<bar> \<le> 1 / 2 ^ 50" by simp
  have t1: "\<bar>X - x\<bar> \<le> 1" using t by (rule order_trans) simp
  have Epos: "0 < E" unfolding E_def by simp
  have YE: "Y = E * 2 powr (X - x)" unfolding Y_def E_def by (simp add: powr_add [symmetric])
  have "\<bar>2 powr (X - x) - 1\<bar> \<le> 2 * \<bar>X - x\<bar>" by (rule pow2_near_one [OF t1])
  then have a: "\<bar>2 powr (X - x) - 1\<bar> \<le> 1 / 2 ^ 49" using t by simp
  have "Y - E = E * (2 powr (X - x) - 1)" unfolding YE by (simp add: algebra_simps)
  then have "\<bar>Y - E\<bar> = E * \<bar>2 powr (X - x) - 1\<bar>"
    using Epos by (simp add: abs_mult)
  then have YE1: "\<bar>Y - E\<bar> \<le> E * (1 / 2 ^ 49)"
    using a Epos by (simp add: mult_left_mono)
  have El: "1 / 64 \<le> E"
  proof -
    have "2 powr (- 6) \<le> 2 powr x" using xr by (intro powr_mono) simp_all
    moreover have "(2::real) powr (- 6) = 1 / 64" using powr_neg_nat [of 6] by simp
    ultimately show ?thesis unfolding E_def by simp
  qed
  have Eu: "E \<le> 64"
  proof -
    have "2 powr x \<le> 2 powr 6" using xr by (intro powr_mono) simp_all
    moreover have "(2::real) powr 6 = 64" by simp
    ultimately show ?thesis unfolding E_def by simp
  qed
  have Yl: "1 / 128 \<le> Y" and Yu: "Y \<le> 65"
  proof -
    have "E * (1 / 2 ^ 49) \<le> E / 2" using Epos by simp
    then show "1 / 128 \<le> Y" using YE1 El by linarith
    have "E * (1 / 2 ^ 49) \<le> 1" using Eu by simp
    then show "Y \<le> 65" using YE1 Eu by linarith
  qed
  have np: "\<not> double_overflow Y" using Yl Yu by (simp add: double_overflow_def)
  have PY: "\<bar>P - Y\<bar> \<le> Y / 2 ^ 52"
  proof -
    have "(1::real) / 2 ^ 1075 \<le> (1 / 128) / 2 ^ 53" by simp
    also have "\<dots> \<le> Y / 2 ^ 53" using Yl by (intro divide_right_mono) simp_all
    finally have "(1::real) / 2 ^ 1075 \<le> Y / 2 ^ 53" .
    moreover have "\<bar>Y\<bar> = Y" using Yl by simp
    ultimately have "\<bar>P - Y\<bar> \<le> Y / 2 ^ 53 + Y / 2 ^ 53"
      using fl_error [of Y] unfolding P_def by simp
    then show ?thesis by simp
  qed
  have Pl: "1 / 256 \<le> P" and Pu: "P \<le> 130"
  proof -
    have "Y / 2 ^ 52 \<le> Y / 2" using Yl by simp
    then show "1 / 256 \<le> P" using PY Yl by linarith
    have "Y / 2 ^ 52 \<le> Y" using Yl by simp
    then show "P \<le> 130" using PY Yu by linarith
  qed
  define Z where "Z = 440 * P"
  define F where "F = fl Z"
  have Zl: "1 \<le> Z" and Zu: "Z \<le> 57200" using Pl Pu unfolding Z_def by simp_all
  have nz: "\<not> double_overflow (440 * P)" using Zl Zu unfolding Z_def by (simp add: double_overflow_def)
  have FZ: "\<bar>F - Z\<bar> \<le> Z / 2 ^ 52"
  proof -
    have "(1::real) / 2 ^ 1075 \<le> 1 / 2 ^ 53" by simp
    also have "\<dots> \<le> Z / 2 ^ 53" using Zl by (intro divide_right_mono) simp_all
    finally have "(1::real) / 2 ^ 1075 \<le> Z / 2 ^ 53" .
    moreover have "\<bar>Z\<bar> = Z" using Zl by simp
    ultimately have "\<bar>F - Z\<bar> \<le> Z / 2 ^ 53 + Z / 2 ^ 53"
      using fl_error [of Z] unfolding F_def by simp
    then show ?thesis by simp
  qed
  have ev: "note_to_freq note = Inr (Finite F)"
  proof -
    have "note_to_freq note = Inr (fmul (Finite 440) (Finite (fl (2 powr X))))"
      by (rule note_to_freq_steps [OF i]) (use no np in \<open>simp_all add: X_def x_def Y_def\<close>)
    then show ?thesis using nz by (simp add: to_double_def F_def Z_def P_def Y_def)
  qed
  have ex: "note_to_freq_exact note = 440 * E"
    by (simp add: note_to_freq_exact_def E_def x_def)
  have b1: "Y \<le> 2 * E"
  proof -
    have "E * (1 / 2 ^ 49) \<le> E" using Epos by simp
    then show ?thesis using YE1 by linarith
  qed
  have b2: "Z \<le> 1760 * E"
  proof -
    have "Y / 2 ^ 52 \<le> Y" using Yl by simp
    then have "P \<le> 2 * Y" using PY by linarith
    then show ?thesis using b1 unfolding Z_def by linarith
  qed
  have c1: "Z / 2 ^ 52 \<le> 1760 * E / 2 ^ 52" using b2 by (intro divide_right_mono) simp_all
  have c2: "Y / 2 ^ 52 \<le> 2 * E / 2 ^ 52" using b1 by (intro divide_right_mono) simp_all
  have d1: "Z - Z / 2 ^ 52 \<le> F \<and> F \<le> Z + Z / 2 ^ 52"
    using FZ by (simp only: abs_diff_le_iff)
  have d2: "Y - Y / 2 ^ 52 \<le> P \<and> P \<le> Y + Y / 2 ^ 52"
    using PY by (simp only: abs_diff_le_iff)
  have d3: "E - E * (1 / 2 ^ 49) \<le> Y \<and> Y \<le> E + E * (1 / 2 ^ 49)"
    using YE1 by (simp only: abs_diff_le_iff)
  have c3: "1760 * E / 2 ^ 52 + 440 * (2 * E / 2 ^ 52) + 440 * (E * (1 / 2 ^ 49))
            \<le> 440 * E / 2 ^ 44" using Epos by simp
  have "440 * E - 440 * E / 2 ^ 44 \<le> F" "F \<le> 440 * E + 440 * E / 2 ^ 44"
    using d1 [THEN conjunct1] d1 [THEN conjunct2] d2 [THEN conjunct1] d2 [THEN conjunct2]
      d3 [THEN conjunct1] d3 [THEN conjunct2] c1 c2 c3 unfolding Z_def by linarith+
  then have "\<bar>F - 440 * E\<bar> \<le> 440 * E / 2 ^ 44" by (simp only: abs_diff_le_iff simp_thms)
  then show ?thesis using ev ex by simp
qed

lemma semitone_ratio: "25 / 24 \<le> (2::real) powr (1 / 12)"
proof -
  have a: "((25 / 24) ^ 12 :: real) \<le> 2" by (simp add: power_divide)
  have "((25 / 24 :: real) powr real (12::nat)) powr (1 / 12) = 25 / 24"
    by (simp only: powr_powr) simp
  then have b: "((25 / 24 :: real) ^ 12) powr (1 / 12) = 25 / 24"
    by (simp only: powr_realpow zero_less_divide_iff zero_less_numeral simp_thms)
  have "((25 / 24 :: real) ^ 12) powr (1 / 12) \<le> 2 powr (1 / 12)"
    using powr_mono2 [of "1 / 12" "(25 / 24) ^ 12" "2::real"] a by simp
  then show ?thesis by (simp only: b)
qed

lemma note_to_freq_exact_step:
  "note_to_freq_exact (n + 1) = note_to_freq_exact n * 2 powr (1 / 12)"
proof -
  have e: "(real_of_int (n + 1) - 69) / 12 = (real_of_int n - 69) / 12 + 1 / 12"
    by (simp add: field_simps)
  show ?thesis unfolding note_to_freq_exact_def e by (simp add: powr_add)
qed

lemma note_to_freq_midi_mono:
  assumes "0 \<le> m" and "m < n" and "n \<le> 127"
  shows "\<exists>f g. note_to_freq m = Inr (Finite f) \<and> note_to_freq n = Inr (Finite g) \<and> f < g"
proof -
  have mr: "0 \<le> m" "m \<le> 127" and nr: "0 \<le> n" "n \<le> 127" using assms by simp_all
  from note_to_freq_midi [OF mr] obtain f where
    f: "note_to_freq m = Inr (Finite f)"
       "\<bar>f - note_to_freq_exact m\<bar> \<le> note_to_freq_exact m / 2 ^ 44" by blast
  from note_to_freq_midi [OF nr] obtain g where
    g: "note_to_freq n = Inr (Finite g)"
       "\<bar>g - note_to_freq_exact n\<bar> \<le> note_to_freq_exact n / 2 ^ 44" by blast
  define Em where "Em = note_to_freq_exact m"
  define En where "En = note_to_freq_exact n"
  have pos: "0 < Em" unfolding Em_def by (rule note_to_freq_exact_pos)
  have "note_to_freq_exact (m + 1) \<le> En"
  proof (cases "m + 1 = n")
    case True
    then show ?thesis by (simp add: En_def)
  next
    case False
    then have "m + 1 < n" using assms(2) by simp
    from note_to_freq_exact_strict_mono [OF this] show ?thesis by (simp add: En_def)
  qed
  moreover have "Em * (25 / 24) \<le> note_to_freq_exact (m + 1)"
    unfolding note_to_freq_exact_step Em_def
    using note_to_freq_exact_pos [of m] semitone_ratio by (intro mult_left_mono) simp_all
  ultimately have r: "Em * (25 / 24) \<le> En" by linarith
  have d1: "Em - Em / 2 ^ 44 \<le> f \<and> f \<le> Em + Em / 2 ^ 44"
    using f(2) unfolding Em_def by (simp only: abs_diff_le_iff)
  have d2: "En - En / 2 ^ 44 \<le> g \<and> g \<le> En + En / 2 ^ 44"
    using g(2) unfolding En_def by (simp only: abs_diff_le_iff)
  have s1: "Em / 2 ^ 44 \<le> Em / 100" using pos by simp
  have "0 < En" unfolding En_def by (rule note_to_freq_exact_pos)
  then have s2: "En / 2 ^ 44 \<le> En / 100" by simp
  have "f < g" using d1 [THEN conjunct2] d2 [THEN conjunct1] r pos s1 s2 by linarith
  with f(1) g(1) show ?thesis by blast
qed

lemma note_to_freq_midi_octave:
  assumes "0 \<le> n" and "n + 12 \<le> 127"
  shows "\<exists>f g. note_to_freq n = Inr (Finite f) \<and> note_to_freq (n + 12) = Inr (Finite g)
           \<and> \<bar>g - 2 * f\<bar> \<le> g / 2 ^ 42"
proof -
  have nr: "0 \<le> n" "n \<le> 127" and kr: "0 \<le> n + 12" "n + 12 \<le> 127" using assms by simp_all
  from note_to_freq_midi [OF nr] obtain f where
    f: "note_to_freq n = Inr (Finite f)"
       "\<bar>f - note_to_freq_exact n\<bar> \<le> note_to_freq_exact n / 2 ^ 44" by blast
  from note_to_freq_midi [OF kr] obtain g where
    g: "note_to_freq (n + 12) = Inr (Finite g)"
       "\<bar>g - note_to_freq_exact (n + 12)\<bar> \<le> note_to_freq_exact (n + 12) / 2 ^ 44" by blast
  define E where "E = note_to_freq_exact n"
  have pos: "0 < E" unfolding E_def by (rule note_to_freq_exact_pos)
  have d1: "E - E / 2 ^ 44 \<le> f \<and> f \<le> E + E / 2 ^ 44"
    using f(2) unfolding E_def by (simp only: abs_diff_le_iff)
  have d2: "2 * E - 2 * E / 2 ^ 44 \<le> g \<and> g \<le> 2 * E + 2 * E / 2 ^ 44"
    using g(2) unfolding note_to_freq_exact_octave E_def by (simp only: abs_diff_le_iff)
  have s: "2 * E / 2 ^ 44 \<le> E" using pos by simp
  have "g - g / 2 ^ 42 \<le> 2 * f \<and> 2 * f \<le> g + g / 2 ^ 42"
  proof -
    have "E \<le> g" using d2 [THEN conjunct1] s by linarith
    then have "E / 2 ^ 42 \<le> g / 2 ^ 42" by (intro divide_right_mono) simp_all
    moreover have "E / 2 ^ 42 = 2 * E / 2 ^ 44 + 2 * (E / 2 ^ 44)" by simp
    ultimately have "2 * E / 2 ^ 44 + 2 * (E / 2 ^ 44) \<le> g / 2 ^ 42" by simp
    then show ?thesis
      using d1 [THEN conjunct1] d1 [THEN conjunct2] d2 [THEN conjunct1] d2 [THEN conjunct2]
      by (intro conjI) linarith+
  qed
  then have "\<bar>2 * f - g\<bar> \<le> g / 2 ^ 42" by (simp only: abs_diff_le_iff)
  then have "\<bar>g - 2 * f\<bar> \<le> g / 2 ^ 42" by (simp only: abs_minus_commute)
  with f(1) g(1) show ?thesis by blast
qed

text \<open>Above the range of the doubles the product is infinite, then the power raises.\<close>

lemma note_to_freq_12345: "note_to_freq 12345 = Inr PosInf"
proof -
  have a: "fl 1023 = 1023" using fl_of_int [of 1023] by simp
  have b: "fl (2 ^ 1023) = 2 ^ 1023" using fl_exact_mult [of 1 1023] by simp
  have c: "(2::real) powr 1023 = 2 ^ 1023" by simp
  have st: "note_to_freq 12345 = Inr (fmul (Finite 440) (Finite (fl (2 powr 1023))))"
    by (rule note_to_freq_steps) (simp_all add: a c double_overflow_def)
  have "double_overflow (440 * 2 ^ 1023)" by (simp add: double_overflow_def)
  then have "fmul (Finite 440) (Finite (fl (2 powr 1023))) = PosInf"
    by (simp only: c b fmul.simps to_double_def) simp
  then show ?thesis by (simp only: st)
qed

lemma note_to_freq_12357: "note_to_freq 12357 = Inl OverflowError"
proof -
  have a: "fl 1024 = 1024" using fl_of_int [of 1024] by simp
  have c: "(2::real) powr 1024 = 2 ^ 1024" by simp
  have pf: "py_float 12288 = Inr (Finite 12288)" using py_float_small [of 12288] by simp
  show ?thesis
    by (simp add: note_to_freq_def pf py_bind_def to_double_def a c double_overflow_def)
qed

text \<open>
  C10, as stated, fails in double arithmetic. Far below the MIDI range the power
  underflows: notes \<open>-13000\<close> and \<open>-12999\<close> both give \<open>0.0\<close>, so the function is not
  strictly increasing. Far above it the result leaves the doubles: note \<open>12345\<close> gives an
  infinity and note \<open>12345 + 12\<close> raises \<^verbatim>\<open>OverflowError\<close>, so the octave law fails
  there.
\<close>

theorem note_to_freq_range_counterexample:
  "note_to_freq (- 13000) = Inr (Finite 0) \<and> note_to_freq (- 12999) = Inr (Finite 0)
   \<and> (- 13000 :: int) < - 12999
   \<and> note_to_freq 12345 = Inr PosInf \<and> note_to_freq (12345 + 12) = Inl OverflowError"
proof -
  have a: "note_to_freq (- 13000) = Inr (Finite 0)"
    by (rule note_to_freq_underflow) simp_all
  have b: "note_to_freq (- 12999) = Inr (Finite 0)"
    by (rule note_to_freq_underflow) simp_all
  have c: "note_to_freq (12345 + 12) = Inl OverflowError"
    using note_to_freq_12357 by simp
  from a b c note_to_freq_12345 show ?thesis by simp
qed

text \<open>
  C10, amended. \<open>note_to_freq\<close> sends MIDI note 69 to exactly \<open>440.0\<close>. In exact real
  arithmetic its expression doubles with every twelve semitones and is strictly
  increasing, for every integer note. In double arithmetic this holds on the MIDI
  range \<open>0 \<dots> 127\<close> up to rounding: every value is a finite double within a relative
  \<open>2\<close> to the power \<open>-44\<close> of the exact one, the values are strictly increasing, and
  \<open>note_to_freq (n + 12)\<close> differs from \<open>2 * note_to_freq n\<close> by at most a relative \<open>2\<close>
  to the power \<open>-42\<close>.
\<close>

theorem note_to_freq_scale:
  "note_to_freq 69 = Inr (Finite 440)
   \<and> (\<forall>n. note_to_freq_exact (n + 12) = 2 * note_to_freq_exact n)
   \<and> (\<forall>m n. m < n \<longrightarrow> note_to_freq_exact m < note_to_freq_exact n)
   \<and> (0 \<le> pitch \<and> pitch \<le> 127 \<longrightarrow>
        (\<exists>f. note_to_freq pitch = Inr (Finite f)
           \<and> \<bar>f - note_to_freq_exact pitch\<bar> \<le> note_to_freq_exact pitch / 2 ^ 44))
   \<and> (0 \<le> lo \<and> lo < hi \<and> hi \<le> 127 \<longrightarrow>
        (\<exists>f g. note_to_freq lo = Inr (Finite f) \<and> note_to_freq hi = Inr (Finite g) \<and> f < g))
   \<and> (0 \<le> k \<and> k + 12 \<le> 127 \<longrightarrow>
        (\<exists>f g. note_to_freq k = Inr (Finite f) \<and> note_to_freq (k + 12) = Inr (Finite g)
           \<and> \<bar>g - 2 * f\<bar> \<le> g / 2 ^ 42))"
proof (intro conjI allI impI)
  show "note_to_freq 69 = Inr (Finite 440)" by (rule note_to_freq_69)
  show "note_to_freq_exact (n + 12) = 2 * note_to_freq_exact n" for n
    by (rule note_to_freq_exact_octave)
  show "note_to_freq_exact m < note_to_freq_exact n" if "m < n" for m n
    using that by (rule note_to_freq_exact_strict_mono)
  show "\<exists>f. note_to_freq pitch = Inr (Finite f)
           \<and> \<bar>f - note_to_freq_exact pitch\<bar> \<le> note_to_freq_exact pitch / 2 ^ 44"
    if "0 \<le> pitch \<and> pitch \<le> 127"
    using that by (intro note_to_freq_midi) simp_all
  show "\<exists>f g. note_to_freq lo = Inr (Finite f) \<and> note_to_freq hi = Inr (Finite g) \<and> f < g"
    if "0 \<le> lo \<and> lo < hi \<and> hi \<le> 127"
    using that by (intro note_to_freq_midi_mono) simp_all
  show "\<exists>f g. note_to_freq k = Inr (Finite f) \<and> note_to_freq (k + 12) = Inr (Finite g)
           \<and> \<bar>g - 2 * f\<bar> \<le> g / 2 ^ 42"
    if "0 \<le> k \<and> k + 12 \<le> 127"
    using that by (intro note_to_freq_midi_octave) simp_all
qed

theorem note_to_freq_scale_witness:
  "(60::int) < 72 \<and> note_to_freq_exact 60 < note_to_freq_exact 72
   \<and> note_to_freq_exact 81 = 2 * note_to_freq_exact 69
   \<and> (0::int) \<le> 60 \<and> (60::int) \<le> 127 \<and> (72::int) \<le> 127 \<and> (60::int) + 12 \<le> 127
   \<and> (\<exists>f. note_to_freq 60 = Inr (Finite f)
          \<and> \<bar>f - note_to_freq_exact 60\<bar> \<le> note_to_freq_exact 60 / 2 ^ 44)
   \<and> (\<exists>f g. note_to_freq 60 = Inr (Finite f) \<and> note_to_freq 72 = Inr (Finite g) \<and> f < g
          \<and> \<bar>g - 2 * f\<bar> \<le> g / 2 ^ 42)"
proof -
  note t = note_to_freq_scale [where pitch = 60 and lo = 60 and hi = 72 and k = 60]
  have a: "note_to_freq_exact 60 < note_to_freq_exact 72" using t by simp
  have "note_to_freq_exact (69 + 12) = 2 * note_to_freq_exact 69" using t by blast
  then have b: "note_to_freq_exact 81 = 2 * note_to_freq_exact 69" by simp
  have c: "\<exists>f. note_to_freq 60 = Inr (Finite f)
          \<and> \<bar>f - note_to_freq_exact 60\<bar> \<le> note_to_freq_exact 60 / 2 ^ 44"
    using t by simp
  from t obtain f g where fg: "note_to_freq 60 = Inr (Finite f)" "note_to_freq 72 = Inr (Finite g)"
    "f < g" by auto
  from t obtain f' g' where fg': "note_to_freq 60 = Inr (Finite f')"
    "note_to_freq (60 + 12) = Inr (Finite g')" "\<bar>g' - 2 * f'\<bar> \<le> g' / 2 ^ 42" by auto
  have "f' = f" "g' = g" using fg fg' by simp_all
  then have d: "\<exists>f g. note_to_freq 60 = Inr (Finite f) \<and> note_to_freq 72 = Inr (Finite g) \<and> f < g
          \<and> \<bar>g - 2 * f\<bar> \<le> g / 2 ^ 42"
    using fg fg' by blast
  from a b c d show ?thesis by simp
qed

section \<open>Envelope\<close>

lemma apply_envelope_eval:
  assumes a: "sample_count (Finite attack) = Inr (int a)"
    and r: "sample_count (Finite release) = Inr (int r)"
    and len: "a + r \<le> length samples"
  shows "apply_envelope samples attack release =
           Inr (map (\<lambda>j. if j < a then samples ! j * (real j / real a)
                          else if length samples - r \<le> j
                               then samples ! j * ((real r - real (j - (length samples - r))) / real r)
                               else samples ! j)
                  [0..<length samples])"
proof -
  let ?n = "length samples"
  let ?F = "\<lambda>i v. v * (real i / real a)"
  let ?r1 = "map (\<lambda>j. if 0 + 0 \<le> j \<and> j < 0 + a then ?F (j - 0) (samples ! j) else samples ! j)
                  [0..<?n]"
  have l1: "for_each (\<lambda>i result. py_update result (int i) (\<lambda>v. v * (real i / real_of_int (int a))))
              (py_range (int a)) samples = Inr ?r1"
    unfolding py_range_def nat_int
  proof (rule for_each_update_range [where off = 0 and F = "?F" and k = 0 and m = a and xs = samples])
    show "0 + a \<le> length samples" using len by simp
  next
    fix i and res :: "real list" assume "i < a" "length res = length samples"
    then have "i < length res" using len by simp
    then show "py_update res (int i) (\<lambda>v. v * (real i / real_of_int (int a))) =
               Inr (res[0 + i := res ! (0 + i) * (real i / real a)])"
      by (simp add: py_update_nat)
  qed
  let ?off = "?n - r"
  let ?G = "\<lambda>i v. v * ((real r - real i) / real r)"
  let ?r2 = "map (\<lambda>j. if ?off + 0 \<le> j \<and> j < ?off + r then ?G (j - ?off) (?r1 ! j) else ?r1 ! j)
                  [0..<length ?r1]"
  have l2: "for_each (\<lambda>i result. py_update result (int ?n - int r + int i)
                       (\<lambda>v. v * ((real_of_int (int r) - real i) / real_of_int (int r))))
               (py_range (int r)) ?r1 = Inr ?r2"
    unfolding py_range_def nat_int
  proof (rule for_each_update_range [where off = "?off" and F = "?G" and k = 0 and m = r and xs = "?r1"])
    show "?off + r \<le> length ?r1" using len by simp
  next
    fix i and res :: "real list" assume i: "i < r" "length res = length ?r1"
    then have lt: "?off + i < length res" using len by simp
    have e: "int ?n - int r + int i = int (?off + i)" using len by linarith
    have f: "py_update res (int (?off + i)) (\<lambda>v. v * ((real r - real i) / real r)) =
             Inr (res[?off + i := res ! (?off + i) * ((real r - real i) / real r)])"
      by (rule py_update_nat [OF lt])
    show "py_update res (int ?n - int r + int i)
                       (\<lambda>v. v * ((real_of_int (int r) - real i) / real_of_int (int r))) =
               Inr (res[?off + i := res ! (?off + i) * ((real r - real i) / real r)])"
      unfolding e of_int_of_nat_eq by (rule f)
  qed
  have fin: "?r2 = map (\<lambda>j. if j < a then samples ! j * (real j / real a)
                          else if ?n - r \<le> j
                               then samples ! j * ((real r - real (j - (?n - r))) / real r)
                               else samples ! j)
                  [0..<?n]"
  proof (intro nth_equalityI)
    show "length ?r2 = length (map (\<lambda>j. if j < a then samples ! j * (real j / real a)
                          else if ?n - r \<le> j
                               then samples ! j * ((real r - real (j - (?n - r))) / real r)
                               else samples ! j)
                  [0..<?n])" by simp
  next
    fix i assume "i < length ?r2"
    then have i: "i < ?n" by simp
    have "\<not> (i < a \<and> ?n - r \<le> i)" using len by linarith
    then show "?r2 ! i = map (\<lambda>j. if j < a then samples ! j * (real j / real a)
                          else if ?n - r \<le> j
                               then samples ! j * ((real r - real (j - (?n - r))) / real r)
                               else samples ! j)
                  [0..<?n] ! i"
      using i len by auto
  qed
  show ?thesis
    by (simp only: apply_envelope_def Let_def a r py_bind_def l1 sum.case l2 fin)
qed

text \<open>
  C9. Let \<open>attack_samples\<close> and \<open>release_samples\<close> be the values of
  \<^verbatim>\<open>int(attack * SAMPLE_RATE)\<close> and \<^verbatim>\<open>int(release * SAMPLE_RATE)\<close>. When the buffer is at
  least \<open>attack_samples + release_samples\<close> long and both counts are at least 1,
  \<open>apply_envelope\<close> scales the first \<open>attack_samples\<close> samples by
  \<open>i / attack_samples\<close>, the last \<open>release_samples\<close> samples by
  \<open>(release_samples - i) / release_samples\<close>, and leaves the others unchanged; the first
  output sample is 0 and the last is the last input sample times \<open>1 / release_samples\<close>.
\<close>

theorem apply_envelope_ramps:
  assumes "sample_count (Finite attack) = Inr attack_samples"
    and "sample_count (Finite release) = Inr release_samples"
    and "1 \<le> attack_samples" and "1 \<le> release_samples"
    and "attack_samples + release_samples \<le> int (length samples)"
  shows "\<exists>out. apply_envelope samples attack release = Inr out
           \<and> length out = length samples
           \<and> (\<forall>i < nat attack_samples.
                  out ! i = samples ! i * (real i / real_of_int attack_samples))
           \<and> (\<forall>i < nat release_samples.
                  out ! (length samples - nat release_samples + i) =
                  samples ! (length samples - nat release_samples + i)
                    * ((real_of_int release_samples - real i) / real_of_int release_samples))
           \<and> (\<forall>j. nat attack_samples \<le> j \<and> j < length samples - nat release_samples
                  \<longrightarrow> out ! j = samples ! j)
           \<and> out ! 0 = 0
           \<and> last out = last samples * (1 / real_of_int release_samples)"
proof -
  define a where "a = nat attack_samples"
  define r where "r = nat release_samples"
  let ?n = "length samples"
  have a: "sample_count (Finite attack) = Inr (int a)"
    and r: "sample_count (Finite release) = Inr (int r)"
    using assms by (simp_all add: a_def r_def)
  have as: "attack_samples = int a" and rs: "release_samples = int r"
    using assms by (simp_all add: a_def r_def)
  have len: "a + r \<le> ?n" and a1: "1 \<le> a" and r1: "1 \<le> r"
    using assms by (simp_all add: a_def r_def)
  let ?out = "map (\<lambda>j. if j < a then samples ! j * (real j / real a)
                          else if ?n - r \<le> j
                               then samples ! j * ((real r - real (j - (?n - r))) / real r)
                               else samples ! j)
                  [0..<?n]"
  have ev: "apply_envelope samples attack release = Inr ?out"
    by (rule apply_envelope_eval [OF a r len])
  have p1: "\<forall>i < a. ?out ! i = samples ! i * (real i / real a)"
    using len by simp
  have p2: "\<forall>i < r. ?out ! (?n - r + i) =
              samples ! (?n - r + i) * ((real r - real i) / real r)"
  proof (intro allI impI)
    fix i assume i: "i < r"
    then have "?n - r + i < ?n" and "\<not> ?n - r + i < a" using len by linarith+
    then show "?out ! (?n - r + i) = samples ! (?n - r + i) * ((real r - real i) / real r)"
      by simp
  qed
  have p3: "\<forall>j. a \<le> j \<and> j < ?n - r \<longrightarrow> ?out ! j = samples ! j"
    by auto
  have "0 < a" using a1 by simp
  from p1 [rule_format, OF this] have p4: "?out ! 0 = 0" by simp
  have ne: "samples \<noteq> []" "?out \<noteq> []" using len a1 by auto
  have k: "r - 1 < r" using r1 by simp
  have idx: "?n - r + (r - 1) = ?n - 1" using len r1 by linarith
  have lo: "last ?out = ?out ! (length ?out - 1)" by (rule last_conv_nth [OF ne(2)])
  have ls: "last samples = samples ! (?n - 1)" by (rule last_conv_nth [OF ne(1)])
  have lenout: "length ?out = ?n" by simp
  have fr: "(real r - real (r - 1)) / real r = 1 / real r"
    using r1 by (simp add: of_nat_diff)
  from p2 [rule_format, OF k]
  have "?out ! (?n - 1) = samples ! (?n - 1) * (1 / real r)"
    unfolding idx fr .
  then have p5: "last ?out = last samples * (1 / real r)"
    unfolding lo ls lenout .
  show ?thesis
    unfolding as rs nat_int
    using ev p1 p2 p3 p4 p5 by (intro exI [of _ ?out] conjI) simp_all
qed

theorem apply_envelope_ramps_witness:
  "sample_count (Finite (1 / 2 ^ 15)) = Inr 1 \<and> sample_count (Finite (1 / 2 ^ 14)) = Inr 2
   \<and> (1::int) \<le> 1 \<and> (1::int) \<le> 2
   \<and> (1::int) + 2 \<le> int (length [5, 6, 7, 8 :: real])
   \<and> apply_envelope [5, 6, 7, 8] (1 / 2 ^ 15) (1 / 2 ^ 14) = Inr [0, 6, 7, 4]"
proof -
  have f1: "fl (1 / 2 ^ 15 * 44100) = 11025 / 8192"
    using fl_exact_div [of 11025 13] by simp
  have f2: "fl (1 / 2 ^ 14 * 44100) = 11025 / 4096"
    using fl_exact_div [of 11025 12] by simp
  have h1: "sample_count (Finite (1 / 2 ^ 15)) = Inr 1"
    by (simp only: sample_count_Finite f1) (simp add: double_overflow_def py_trunc_def)
  have h2: "sample_count (Finite (1 / 2 ^ 14)) = Inr 2"
    by (simp only: sample_count_Finite f2) (simp add: double_overflow_def py_trunc_def)
  have h3: "(1::int) + 2 \<le> int (length [5, 6, 7, 8 :: real])" by simp
  from apply_envelope_ramps [OF h1 h2 _ _ h3] obtain out where
    o: "apply_envelope [5, 6, 7, 8] (1 / 2 ^ 15) (1 / 2 ^ 14) = Inr out"
       "length out = length [5, 6, 7, 8 :: real]"
       "\<forall>i < nat 2. out ! (length [5, 6, 7, 8 :: real] - nat 2 + i) =
                  [5, 6, 7, 8] ! (length [5, 6, 7, 8 :: real] - nat 2 + i)
                    * ((real_of_int 2 - real i) / real_of_int 2)"
       "\<forall>j. nat 1 \<le> j \<and> j < length [5, 6, 7, 8 :: real] - nat 2 \<longrightarrow> out ! j = [5, 6, 7, 8] ! j"
       "out ! 0 = 0"
    by auto
  have "out ! 1 = 6" using o(4) [rule_format, of 1] by simp
  moreover have "out ! 2 = 7" using o(3) [rule_format, of 0] by (simp add: numeral_2_eq_2)
  moreover have "out ! 3 = 4" using o(3) [rule_format, of 1] by (simp add: numeral_3_eq_3)
  moreover have "length out = 4" using o(2) by simp
  ultimately have "out = [0, 6, 7, 4]"
    using o(5) by (intro nth_equalityI) (auto simp: less_Suc_eq numeral_eq_Suc)
  with o(1) h1 h2 h3 show ?thesis by simp
qed

section \<open>Mixer\<close>

lemma py_max_Max:
  assumes "xs \<noteq> []"
  shows "py_max xs = Inr (Max (set xs))"
proof (cases xs)
  case Nil
  then show ?thesis using assms by simp
next
  case (Cons x rest)
  have "fold max rest x = Max (set (x # rest))" by (rule Max.set_eq_fold [symmetric])
  then show ?thesis by (simp only: Cons py_max_def list.case)
qed

lemma mix_inner:
  assumes "length sl \<le> length res"
  shows "for_each (\<lambda>i result. py_update result (int i) (\<lambda>v. v + sl ! i * w)) [0..<length sl] res =
           Inr (map (\<lambda>j. if j < length sl then res ! j + sl ! j * w else res ! j) [0..<length res])"
proof -
  have "for_each (\<lambda>i result. py_update result (int i) (\<lambda>v. v + sl ! i * w)) [0..<length sl] res =
          Inr (map (\<lambda>j. if 0 + 0 \<le> j \<and> j < 0 + length sl
                         then (\<lambda>i v. v + sl ! i * w) (j - 0) (res ! j) else res ! j)
                 [0..<length res])"
  proof (rule for_each_update_range [where off = 0 and F = "\<lambda>i v. v + sl ! i * w" and k = 0])
    show "0 + length sl \<le> length res" using assms by simp
  next
    fix i and r :: "real list" assume "i < length sl" "length r = length res"
    then have "i < length r" using assms by simp
    then show "py_update r (int i) (\<lambda>v. v + sl ! i * w) = Inr (r[0 + i := r ! (0 + i) + sl ! i * w])"
      by (simp add: py_update_nat)
  qed
  then show ?thesis by simp
qed

lemma mix_outer:
  assumes "\<forall>p \<in> set ps. length (fst p) \<le> length res"
  shows "for_each
           (\<lambda>(sl, w) result.
              for_each (\<lambda>i result. py_update result (int i) (\<lambda>v. v + sl ! i * w))
                [0..<length sl] result)
           ps res =
         Inr (map (\<lambda>j. res ! j + (\<Sum>(sl, w)\<leftarrow>ps. if j < length sl then sl ! j * w else 0))
                [0..<length res])"
  using assms
proof (induction ps arbitrary: res)
  case Nil
  show ?case by (simp add: map_nth)
next
  case (Cons p ps)
  obtain sl w where p: "p = (sl, w)" by (cases p)
  let ?r = "map (\<lambda>j. if j < length sl then res ! j + sl ! j * w else res ! j) [0..<length res]"
  have le: "length sl \<le> length res" using Cons.prems p by simp
  have "\<forall>p \<in> set ps. length (fst p) \<le> length ?r" using Cons.prems by simp
  from Cons.IH [OF this]
  have ih: "for_each
           (\<lambda>(sl, w) result.
              for_each (\<lambda>i result. py_update result (int i) (\<lambda>v. v + sl ! i * w))
                [0..<length sl] result)
           ps ?r =
         Inr (map (\<lambda>j. ?r ! j + (\<Sum>(sl, w)\<leftarrow>ps. if j < length sl then sl ! j * w else 0))
                [0..<length ?r])" .
  have eq: "map (\<lambda>j. ?r ! j + (\<Sum>(sl, w)\<leftarrow>ps. if j < length sl then sl ! j * w else 0))
                [0..<length ?r]
          = map (\<lambda>j. res ! j + (\<Sum>(sl, w)\<leftarrow>p # ps. if j < length sl then sl ! j * w else 0))
                [0..<length res]"
    by (intro nth_equalityI) (auto simp: p)
  show ?case
    using mix_inner [OF le, of w] ih eq by (simp add: p)
qed

lemma zip_replicate_const: "zip xs (replicate (length xs) c) = map (\<lambda>x. (x, c)) xs"
  by (induction xs) auto

lemma mix_eval:
  assumes "sample_lists \<noteq> []" and "length ws = length sample_lists"
  shows "mix sample_lists (Some ws) =
           Inr (map (\<lambda>j. \<Sum>(sl, w)\<leftarrow>zip sample_lists ws. if j < length sl then sl ! j * w else 0)
                  [0..<Max (length ` set sample_lists)])"
proof -
  let ?n = "Max (length ` set sample_lists)"
  have m: "py_max (map length sample_lists) = Inr ?n"
    using py_max_Max [of "map length sample_lists"] assms(1) by simp
  have "\<forall>p \<in> set (zip sample_lists ws). length (fst p) \<le> length (replicate ?n (0::real))"
    by (auto dest!: set_zip_leftD)
  from mix_outer [OF this]
  show ?thesis by (simp add: mix_def m)
qed

text \<open>
  C3, as stated, fails: with no input buffer \<^verbatim>\<open>max()\<close> raises.
\<close>

theorem mix_zero_inputs_raises:
  "mix [] None = Inl ValueError \<and> mix [] None \<noteq> Inr []"
  by (simp add: mix_def py_max_def)

text \<open>
  C3, amended. \<open>mix\<close> with no input buffer raises \<^verbatim>\<open>ValueError\<close>; with one or more
  buffers and the weights omitted it returns a buffer of the maximum input length, equal
  to the one for the explicit weights \<open>1 / len(buffers)\<close>, each element the weighted sum
  of the inputs that reach that index.
\<close>

theorem mix_lengths_and_default_weights:
  "mix [] weights = Inl ValueError
   \<and> (sample_lists \<noteq> [] \<longrightarrow>
        (\<exists>r. mix sample_lists None = Inr r
           \<and> length r = Max (length ` set sample_lists)
           \<and> mix sample_lists
                (Some (replicate (length sample_lists) (1 / real (length sample_lists)))) = Inr r
           \<and> (\<forall>i < length r. r ! i =
                 (\<Sum>sl\<leftarrow>sample_lists.
                    if i < length sl then sl ! i * (1 / real (length sample_lists)) else 0))))"
proof (intro conjI impI)
  show "mix [] weights = Inl ValueError" by (simp add: mix_def py_max_def)
next
  assume ne: "sample_lists \<noteq> []"
  let ?c = "1 / real (length sample_lists)"
  let ?ws = "replicate (length sample_lists) ?c"
  let ?n = "Max (length ` set sample_lists)"
  let ?r = "map (\<lambda>j. \<Sum>(sl, w)\<leftarrow>zip sample_lists ?ws. if j < length sl then sl ! j * w else 0)
                  [0..<?n]"
  have ev: "mix sample_lists (Some ?ws) = Inr ?r"
    by (rule mix_eval [OF ne]) simp
  have dflt: "mix sample_lists None = mix sample_lists (Some ?ws)"
    by (simp only: mix_def option.case)
  have el: "\<forall>i < length ?r. ?r ! i =
                 (\<Sum>sl\<leftarrow>sample_lists. if i < length sl then sl ! i * ?c else 0)"
  proof (intro allI impI)
    fix i assume "i < length ?r"
    then have i: "i < ?n" by simp
    have "?r ! i = (\<Sum>(sl, w)\<leftarrow>zip sample_lists ?ws. if i < length sl then sl ! i * w else 0)"
      using i by (simp only: nth_map length_upt minus_nat.diff_0 nth_upt add_0)
    also have "\<dots> = (\<Sum>sl\<leftarrow>sample_lists. if i < length sl then sl ! i * ?c else 0)"
      by (simp add: zip_replicate_const comp_def)
    finally show "?r ! i = (\<Sum>sl\<leftarrow>sample_lists. if i < length sl then sl ! i * ?c else 0)" .
  qed
  show "\<exists>r. mix sample_lists None = Inr r
           \<and> length r = ?n
           \<and> mix sample_lists (Some ?ws) = Inr r
           \<and> (\<forall>i < length r. r ! i =
                 (\<Sum>sl\<leftarrow>sample_lists. if i < length sl then sl ! i * ?c else 0))"
    using ev dflt el by (intro exI [of _ ?r] conjI) simp_all
qed

theorem mix_lengths_and_default_weights_witness:
  "[[1, 2, 3], [4 :: real]] \<noteq> []
   \<and> mix [[1, 2, 3], [4]] None = Inr [5 / 2, 1, 3 / 2]
   \<and> Max (length ` set [[1, 2, 3], [4 :: real]]) = 3"
proof -
  from mix_lengths_and_default_weights [of None "[[1, 2, 3], [4]]"] obtain r where
    r: "mix [[1, 2, 3], [4]] None = Inr r"
       "length r = Max (length ` set [[1, 2, 3], [4 :: real]])"
       "\<forall>i < length r. r ! i =
          (\<Sum>sl\<leftarrow>[[1, 2, 3], [4]]. if i < length sl then sl ! i * (1 / real (length [[1, 2, 3], [4 :: real]])) else 0)"
    by auto
  have l: "length r = 3" using r(2) by simp
  have "r ! 0 = 5 / 2" "r ! 1 = 1" "r ! 2 = 3 / 2"
    using r(3) [rule_format, of 0] r(3) [rule_format, of 1] r(3) [rule_format, of 2] l
    by simp_all
  then have "r = [5 / 2, 1, 3 / 2]"
    using l by (intro nth_equalityI) (auto simp: less_Suc_eq numeral_eq_Suc)
  with r(1) show ?thesis by simp
qed


section \<open>Normalizer\<close>

lemma Max_scaled:
  fixes A :: "real set"
  assumes "finite A" "A \<noteq> {}" "0 \<le> c"
  shows "Max ((\<lambda>v. v * c) ` A) = Max A * c"
proof -
  have "mono (\<lambda>v::real. v * c)" using assms(3) by (intro monoI) (simp add: mult_right_mono)
  from mono_Max_commute [OF this assms(1,2)] show ?thesis by simp
qed

lemma normalize_eval:
  assumes "samples \<noteq> []"
  shows "normalize samples peak =
           (if Max (abs ` set samples) < 1 / 10 ^ 9 then Inr samples
            else Inr (map (\<lambda>s. s * (peak / Max (abs ` set samples))) samples))"
proof -
  have "py_max (map abs samples) = Inr (Max (abs ` set samples))"
    using py_max_Max [of "map abs samples"] assms by simp
  then show ?thesis by (simp add: normalize_def)
qed

lemma normalize_peak_reached:
  fixes samples :: "real list"
  assumes ne: "samples \<noteq> []" and big: "1 / 10 ^ 9 \<le> Max (abs ` set samples)"
  shows "py_max (map abs (map (\<lambda>s. s * (peak / Max (abs ` set samples))) samples)) = Inr \<bar>peak\<bar>"
proof -
  let ?M = "Max (abs ` set samples)"
  let ?c = "\<bar>peak\<bar> / ?M"
  have M: "0 < ?M" using big by (rule less_le_trans [rotated]) simp
  have c: "0 \<le> ?c" using M by simp
  have fin: "finite (abs ` set samples)" "abs ` set samples \<noteq> {}" using ne by auto
  have "set (map abs (map (\<lambda>s. s * (peak / ?M)) samples)) = (\<lambda>v. v * ?c) ` (abs ` set samples)"
    using M by (auto simp: abs_mult image_iff)
  then have "Max (set (map abs (map (\<lambda>s. s * (peak / ?M)) samples))) = ?M * ?c"
    using Max_scaled [OF fin c] by simp
  also have "\<dots> = \<bar>peak\<bar>" using M by simp
  finally show ?thesis
    using py_max_Max [of "map abs (map (\<lambda>s. s * (peak / ?M)) samples)"] ne by simp
qed

text \<open>
  C4, as stated, fails: a buffer whose peak is nonzero but below the guard \<^verbatim>\<open>1e-9\<close> is
  returned unchanged, so its peak is not the requested one.
\<close>

theorem normalize_guard_counterexample:
  "normalize [1 / 10 ^ 10] (85 / 100) = Inr [1 / 10 ^ 10]
   \<and> py_max (map abs [1 / 10 ^ 10 :: real]) = Inr (1 / 10 ^ 10)
   \<and> (1 / 10 ^ 10 :: real) \<noteq> 0
   \<and> \<not> \<bar>(1 / 10 ^ 10 :: real) - 85 / 100\<bar> \<le> 1 / 10 ^ 6"
  by (simp add: normalize_def py_max_def)

text \<open>
  C4, amended. For a non-empty buffer whose peak is at least \<^verbatim>\<open>1e-9\<close>, \<open>normalize\<close> returns
  a buffer of the same length whose peak is exactly \<open>\<bar>peak\<bar>\<close>; a non-empty buffer whose
  peak is below \<^verbatim>\<open>1e-9\<close>, in particular a non-empty all-zero buffer, is returned
  unchanged; the empty buffer raises \<^verbatim>\<open>ValueError\<close>.
\<close>

theorem normalize_peak:
  "(samples \<noteq> [] \<and> 1 / 10 ^ 9 \<le> Max (abs ` set samples) \<longrightarrow>
      (\<exists>out. normalize samples peak = Inr out
         \<and> length out = length samples
         \<and> py_max (map abs out) = Inr \<bar>peak\<bar>))
   \<and> (samples \<noteq> [] \<and> Max (abs ` set samples) < 1 / 10 ^ 9 \<longrightarrow>
        normalize samples peak = Inr samples)
   \<and> (0 < n \<longrightarrow> normalize (replicate n 0) peak = Inr (replicate n 0))
   \<and> normalize [] peak = Inl ValueError"
proof (intro conjI impI)
  assume a: "samples \<noteq> [] \<and> 1 / 10 ^ 9 \<le> Max (abs ` set samples)"
  then have "normalize samples peak = Inr (map (\<lambda>s. s * (peak / Max (abs ` set samples))) samples)"
    using normalize_eval [of samples peak] by simp
  then show "\<exists>out. normalize samples peak = Inr out
         \<and> length out = length samples
         \<and> py_max (map abs out) = Inr \<bar>peak\<bar>"
    using normalize_peak_reached [of samples peak] a by simp
next
  assume "samples \<noteq> [] \<and> Max (abs ` set samples) < 1 / 10 ^ 9"
  then show "normalize samples peak = Inr samples"
    using normalize_eval [of samples peak] by simp
next
  assume n: "0 < n"
  then have "replicate n (0::real) \<noteq> []" by simp
  moreover have "abs ` set (replicate n (0::real)) = {0}" using n by auto
  ultimately show "normalize (replicate n 0) peak = Inr (replicate n 0)"
    using normalize_eval [of "replicate n 0" peak] by simp
next
  show "normalize [] peak = Inl ValueError" by (simp add: normalize_def py_max_def)
qed

theorem normalize_peak_witness:
  "[1, -4, 2 :: real] \<noteq> [] \<and> 1 / 10 ^ 9 \<le> Max (abs ` set [1, -4, 2 :: real])
   \<and> normalize [1, -4, 2] 2 = Inr [1 / 2, -2, 1]
   \<and> py_max (map abs [1 / 2, -2, 1 :: real]) = Inr \<bar>2\<bar>
   \<and> (0::nat) < 2 \<and> normalize (replicate 2 0) 2 = Inr (replicate 2 0)"
proof -
  have h: "[1, -4, 2 :: real] \<noteq> [] \<and> 1 / 10 ^ 9 \<le> Max (abs ` set [1, -4, 2 :: real])"
    by simp
  have e: "normalize [1, -4, 2] 2 = Inr [1 / 2, -2, 1]"
    by (simp add: normalize_def py_max_def)
  from normalize_peak [of "[1, -4, 2]" 2 2] h e show ?thesis by simp
qed

section \<open>Noise source\<close>

lemma length_uniform_draws: "length (uniform_draws lib a b idxs g) = length idxs"
  by (induction idxs arbitrary: g) (auto split: prod.splits)

lemma uniform_draws_length_only:
  "length idxs = length idxs' \<Longrightarrow> uniform_draws lib a b idxs g = uniform_draws lib a b idxs' g"
proof (induction idxs arbitrary: idxs' g)
  case Nil
  then show ?case by simp
next
  case (Cons i idxs)
  then obtain i' rest where "idxs' = i' # rest" "length idxs = length rest"
    by (cases idxs') auto
  then show ?case using Cons.IH by (auto split: prod.splits)
qed

lemma take_uniform_draws:
  "take k (uniform_draws lib a b idxs g) = uniform_draws lib a b (take k idxs) g"
proof (induction idxs arbitrary: k g)
  case Nil
  show ?case by simp
next
  case (Cons i idxs)
  show ?case by (cases k) (auto split: prod.splits simp: Cons.IH)
qed

lemma length_white_noise: "length (white_noise lib n seed) = nat n"
  by (simp add: white_noise_def py_range_def length_uniform_draws)

lemma white_noise_prefix:
  assumes "i < nat n" "i < nat m"
  shows "white_noise lib n seed ! i = white_noise lib m seed ! i"
proof -
  let ?k = "min (nat n) (nat m)"
  let ?g = "new_Random lib seed"
  have k: "i < ?k" using assms by simp
  have "take ?k (white_noise lib n seed) = uniform_draws lib (-1) 1 (take ?k [0..<nat n]) ?g"
    by (simp add: white_noise_def py_range_def take_uniform_draws)
  also have "take ?k [0..<nat n] = [0..<?k]" by (simp add: take_upt)
  finally have a: "take ?k (white_noise lib n seed) = uniform_draws lib (-1) 1 [0..<?k] ?g" .
  have "take ?k (white_noise lib m seed) = uniform_draws lib (-1) 1 (take ?k [0..<nat m]) ?g"
    by (simp add: white_noise_def py_range_def take_uniform_draws)
  also have "take ?k [0..<nat m] = [0..<?k]" by (simp add: take_upt)
  finally have b: "take ?k (white_noise lib m seed) = uniform_draws lib (-1) 1 [0..<?k] ?g" .
  have "white_noise lib n seed ! i = take ?k (white_noise lib n seed) ! i"
    using k by simp
  also have "\<dots> = take ?k (white_noise lib m seed) ! i" by (simp only: a b)
  also have "\<dots> = white_noise lib m seed ! i" using k by simp
  finally show ?thesis .
qed


lemma white_noise_call_eq:
  "white_noise_call lib n_samples seed amb = (white_noise lib n_samples seed, amb)"
  by (simp add: white_noise_call_def white_noise_def py_Random_def)

text \<open>
  The ambient state is not inert in the model: a generator constructed without a seed
  reads it, and the same comprehension drawn from such a generator differs between two
  processes.
\<close>

lemma unseeded_noise_depends_on_ambient:
  "uniform_draws \<lparr>new_Random = \<lambda>s::int. s, next_random = \<lambda>g. (real_of_int g, g + 1)\<rparr> 0 1 [0, 1]
     (fst (py_Random \<lparr>new_Random = \<lambda>s::int. s, next_random = \<lambda>g. (real_of_int g, g + 1)\<rparr> None
             \<lparr>module_generator = 0, entropy = \<lambda>k. int k, entropy_reads = 5\<rparr>))
   = [5, 6]
   \<and> uniform_draws \<lparr>new_Random = \<lambda>s::int. s, next_random = \<lambda>g. (real_of_int g, g + 1)\<rparr> 0 1 [0, 1]
     (fst (py_Random \<lparr>new_Random = \<lambda>s::int. s, next_random = \<lambda>g. (real_of_int g, g + 1)\<rparr> None
             \<lparr>module_generator = 0, entropy = \<lambda>k. int k, entropy_reads = 7\<rparr>))
   = [7, 8]"
  by (simp add: py_Random_def uniform_def)

text \<open>
  C8. \<open>white_noise\<close> is deterministic in its arguments. Run in any two ambient states
  (hidden module generator, entropy source) it returns the same list, and it leaves the
  ambient state as it found it. Two runs in sequence with the same length and seed
  return the same list, element for element, also when the ambient state changes
  between them: here a draw from the module generator and the construction of an
  unseeded generator, which reads the entropy source.
\<close>

theorem white_noise_deterministic:
  "fst (white_noise_call lib n_samples seed amb1) = fst (white_noise_call lib n_samples seed amb2)
   \<and> snd (white_noise_call lib n_samples seed amb) = amb
   \<and> (let (first_run, amb) = white_noise_call lib n_samples seed amb;
           (u, amb) = module_uniform lib a b amb;
           (rng, amb) = py_Random lib None amb;
           (second_run, amb) = white_noise_call lib n_samples seed amb
       in first_run = second_run)
   \<and> white_noise_call lib n_samples seed amb = (white_noise lib n_samples seed, amb)"
  by (simp add: white_noise_call_eq split: prod.splits)

section \<open>Oscillators: wrapped and unwrapped phase\<close>

lemma append_loop_fold_sim:
  assumes "R s1 s2"
    and step: "\<And>x s1 s2. R s1 s2 \<Longrightarrow>
                 fst (b1 x s1) = fst (b2 x s2) \<and> R (snd (b1 x s1)) (snd (b2 x s2))"
  shows "fst (fold (\<lambda>x (samples, s). let (v, s') = b1 x s in (samples @ [v], s')) xs (acc, s1))
         = fst (fold (\<lambda>x (samples, s). let (v, s') = b2 x s in (samples @ [v], s')) xs (acc, s2))"
  using assms(1)
proof (induction xs arbitrary: acc s1 s2)
  case Nil
  show ?case by simp
next
  case (Cons x xs)
  obtain v1 t1 where b1: "b1 x s1 = (v1, t1)" by (cases "b1 x s1")
  obtain v2 t2 where b2: "b2 x s2 = (v2, t2)" by (cases "b2 x s2")
  from step [OF Cons.prems, of x] b1 b2 have v: "v1 = v2" and R: "R t1 t2" by simp_all
  show ?case using Cons.IH [OF R, of "acc @ [v2]"] by (simp add: b1 b2 v)
qed

lemma append_loop_sim:
  assumes "R s1 s2"
    and "\<And>x s1 s2. R s1 s2 \<Longrightarrow>
                 fst (b1 x s1) = fst (b2 x s2) \<and> R (snd (b1 x s1)) (snd (b2 x s2))"
  shows "fst (append_loop b1 xs s1) = fst (append_loop b2 xs s2)"
  unfolding append_loop_def by (rule append_loop_fold_sim [where R = R]) (use assms in auto)

lemma sin_harmonic_shift:
  "sin (real_of_int k * (x - 2 * pi * real_of_int j)) = sin (real_of_int k * x)"
proof -
  have "real_of_int k * (x - 2 * pi * real_of_int j)
        = real_of_int k * x - 2 * pi * real_of_int (k * j)"
    by (simp add: algebra_simps)
  then show ?thesis
    by (simp only: sin_diff sin_int_2pin cos_int_2pin mult_1_right mult_zero_right diff_zero)
qed

lemma phase_related_refl: "phase_related W p p"
  unfolding phase_related_def by (rule exI [of _ 0]) simp

lemma phase_related_step:
  assumes "phase_related W p q"
  shows "phase_related W (wrap_at W (p + d)) (no_wrap (q + d))"
proof -
  from assms obtain m :: int where m: "p = q - W * real_of_int m"
    unfolding phase_related_def by blast
  show ?thesis
  proof (cases "p + d > W")
    case True
    have "p + d - W = q + d - W * real_of_int (m + 1)" using m by (simp add: algebra_simps)
    then have "\<exists>m'::int. p + d - W = q + d - W * real_of_int m'" by (rule exI)
    then show ?thesis using True unfolding phase_related_def wrap_at_def no_wrap_def by simp
  next
    case False
    have "p + d = q + d - W * real_of_int m" using m by simp
    then have "\<exists>m'::int. p + d = q + d - W * real_of_int m'" by (rule exI)
    then show ?thesis using False unfolding phase_related_def wrap_at_def no_wrap_def by simp
  qed
qed

lemma phase_related_sin:
  assumes "phase_related (2 * pi * real_of_int c) p q"
  shows "sin (real_of_int k * p) = sin (real_of_int k * q)"
proof -
  from assms obtain m :: int where "p = q - 2 * pi * real_of_int c * real_of_int m"
    unfolding phase_related_def by blast
  then have "p = q - 2 * pi * real_of_int (c * m)" by simp
  then show ?thesis by (simp only: sin_harmonic_shift)
qed

lemma sine_wave_varying_refines:
  "sine_wave_varying freq_fn n amp = sine_wave_varying_unwrapped freq_fn n amp"
  unfolding sine_wave_varying_def sine_wave_varying_unwrapped_def
proof (rule append_loop_sim [where R = "phase_related (2 * pi)"])
  show "phase_related (2 * pi) 0 0" by (rule phase_related_refl)
next
  fix i :: nat and p q :: real
  assume R: "phase_related (2 * pi) p q"
  then have "phase_related (2 * pi * real_of_int 1) p q" by simp
  from phase_related_sin [OF this, of 1] have s: "sin p = sin q" by simp
  show "fst (sine_wave_varying_body (wrap_at (2 * pi)) freq_fn amp i p)
          = fst (sine_wave_varying_body no_wrap freq_fn amp i q)
        \<and> phase_related (2 * pi)
            (snd (sine_wave_varying_body (wrap_at (2 * pi)) freq_fn amp i p))
            (snd (sine_wave_varying_body no_wrap freq_fn amp i q))"
    using s phase_related_step [OF R]
    by (simp add: sine_wave_varying_body_def)
qed


lemma fst_biplane_osc_body:
  "fst (biplane_osc_body lib wrap i (p, g)) =
     0.5 * sin p + 0.25 * sin (2 * p) + 0.15 * sin (3 * p) + 0.08 * sin (4 * p)
     + 0.04 * sin (6 * p)"
  by (simp add: biplane_osc_body_def Let_def split: prod.splits)

lemma snd_biplane_osc_body:
  assumes u: "uniform lib (-1) 1 g = (u, g2)"
  shows "snd (biplane_osc_body lib wrap i (p, g)) =
          (wrap (p + 2 * pi * ((95.0 + 20.0 * sin (2 * pi * 0.7 * (real i / SAMPLE_RATE)))
              * (1.0 + 0.08 * sin (2 * pi * 3.1 * (real i / SAMPLE_RATE)) + 0.03 * u))
            / SAMPLE_RATE), g2)"
  unfolding biplane_osc_body_def
  apply (simp only: prod.case)
  apply (simp only: Let_def)
  apply (simp only: u prod.case snd_conv)
  done

lemma biplane_oscillator_refines:
  "biplane_oscillator lib n = biplane_oscillator_unwrapped lib n"
  unfolding biplane_oscillator_def biplane_oscillator_unwrapped_def
proof (rule append_loop_sim
         [where R = "\<lambda>s1 s2. snd s1 = snd s2 \<and> phase_related (6 * pi) (fst s1) (fst s2)"])
  show "snd (0::real, new_Random lib 1) = snd (0::real, new_Random lib 1)
        \<and> phase_related (6 * pi) (fst (0::real, new_Random lib 1)) (fst (0::real, new_Random lib 1))"
    by (simp only: fst_conv snd_conv phase_related_refl simp_thms)
next
  fix i :: nat and s1 s2 :: "real \<times> 'a"
  assume R: "snd s1 = snd s2 \<and> phase_related (6 * pi) (fst s1) (fst s2)"
  obtain p g where s1: "s1 = (p, g)" by (cases s1)
  obtain q g' where s2': "s2 = (q, g')" by (cases s2)
  from R s1 s2' have g: "g' = g" and pr: "phase_related (6 * pi) p q" by simp_all
  have s2: "s2 = (q, g)" using s2' g by simp
  have pr3: "phase_related (2 * pi * real_of_int 3) p q" using pr by simp
  have h1: "sin p = sin q" using phase_related_sin [OF pr3, of 1] by simp
  have h2: "sin (2 * p) = sin (2 * q)" using phase_related_sin [OF pr3, of 2] by simp
  have h3: "sin (3 * p) = sin (3 * q)" using phase_related_sin [OF pr3, of 3] by simp
  have h4: "sin (4 * p) = sin (4 * q)" using phase_related_sin [OF pr3, of 4] by simp
  have h6: "sin (6 * p) = sin (6 * q)" using phase_related_sin [OF pr3, of 6] by simp
  obtain u g2 where u: "uniform lib (-1) 1 g = (u, g2)" by (cases "uniform lib (-1) 1 g")
  have a: "fst (biplane_osc_body lib (wrap_at (6 * pi)) i s1)
          = fst (biplane_osc_body lib no_wrap i s2)"
    by (simp only: s1 s2 fst_biplane_osc_body h1 h2 h3 h4 h6)
  have b: "snd (snd (biplane_osc_body lib (wrap_at (6 * pi)) i s1))
             = snd (snd (biplane_osc_body lib no_wrap i s2))"
    by (simp only: s1 s2 snd_biplane_osc_body [OF u] snd_conv)
  have c: "phase_related (6 * pi)
               (fst (snd (biplane_osc_body lib (wrap_at (6 * pi)) i s1)))
               (fst (snd (biplane_osc_body lib no_wrap i s2)))"
    by (simp only: s1 s2 snd_biplane_osc_body [OF u] fst_conv phase_related_step [OF pr])
  from a b c
  show "fst (biplane_osc_body lib (wrap_at (6 * pi)) i s1)
          = fst (biplane_osc_body lib no_wrap i s2)
        \<and> (snd (snd (biplane_osc_body lib (wrap_at (6 * pi)) i s1))
             = snd (snd (biplane_osc_body lib no_wrap i s2))
           \<and> phase_related (6 * pi)
               (fst (snd (biplane_osc_body lib (wrap_at (6 * pi)) i s1)))
               (fst (snd (biplane_osc_body lib no_wrap i s2))))"
    by (intro conjI)
qed

text \<open>
  A loop whose body computes its sample from the phase and then advances and wraps the
  phase: if the sample is the same for phases that differ by a multiple of \<open>W\<close>, the
  loop wrapped at \<open>W\<close> produces the samples of the unwrapped loop.
\<close>

lemma wrapped_loop_refines:
  assumes fstw: "\<And>i p. fst (body (wrap_at W) i p) = fst (body no_wrap i p)"
    and sndw: "\<And>i p. snd (body (wrap_at W) i p) = wrap_at W (snd (body no_wrap i p))"
    and adv: "\<And>i p. snd (body no_wrap i p) = no_wrap (p + inc i)"
    and per: "\<And>i p q. phase_related W p q \<Longrightarrow> fst (body no_wrap i p) = fst (body no_wrap i q)"
  shows "fst (append_loop (body (wrap_at W)) xs 0) = fst (append_loop (body no_wrap) xs 0)"
proof (rule append_loop_sim [where R = "phase_related W"])
  show "phase_related W 0 0" by (rule phase_related_refl)
next
  fix i and p q :: real
  assume R: "phase_related W p q"
  have a: "fst (body (wrap_at W) i p) = fst (body no_wrap i q)"
    by (simp only: fstw per [OF R])
  have "snd (body (wrap_at W) i p) = wrap_at W (p + inc i)"
    by (simp only: sndw adv no_wrap_def)
  moreover have "snd (body no_wrap i q) = no_wrap (q + inc i)" by (rule adv)
  ultimately have b: "phase_related W (snd (body (wrap_at W) i p)) (snd (body no_wrap i q))"
    by (simp only: phase_related_step [OF R])
  from a b show "fst (body (wrap_at W) i p) = fst (body no_wrap i q)
     \<and> phase_related W (snd (body (wrap_at W) i p)) (snd (body no_wrap i q))"
    by (intro conjI)
qed

lemma prop_oscillator_refines:
  "prop_oscillator (wrap_at (10 * pi)) n = prop_oscillator no_wrap n"
  unfolding prop_oscillator_def
proof (rule wrapped_loop_refines [where inc = "\<lambda>i. snd (prop_osc_body no_wrap i 0)"])
  show "fst (prop_osc_body (wrap_at (10 * pi)) i p) = fst (prop_osc_body no_wrap i p)" for i p
    by (simp add: prop_osc_body_def Let_def)
  show "snd (prop_osc_body (wrap_at (10 * pi)) i p) = wrap_at (10 * pi) (snd (prop_osc_body no_wrap i p))"
    for i p
    by (simp add: prop_osc_body_def Let_def no_wrap_def)
  show "snd (prop_osc_body no_wrap i p) = no_wrap (p + snd (prop_osc_body no_wrap i 0))" for i p
    by (simp add: prop_osc_body_def Let_def no_wrap_def)
next
  fix i :: nat and p q :: real
  assume pr: "phase_related (10 * pi) p q"
  have prc: "phase_related (2 * pi * real_of_int 5) p q" using pr by simp
  have h1: "sin (p) = sin (q)" using phase_related_sin [OF prc, of 1] by simp
  have h2: "sin (2 * p) = sin (2 * q)" using phase_related_sin [OF prc, of 2] by simp
  have h3: "sin (3 * p) = sin (3 * q)" using phase_related_sin [OF prc, of 3] by simp
  have h4: "sin (4 * p) = sin (4 * q)" using phase_related_sin [OF prc, of 4] by simp
  have h5: "sin (5 * p) = sin (5 * q)" using phase_related_sin [OF prc, of 5] by simp
  show "fst (prop_osc_body no_wrap i p) = fst (prop_osc_body no_wrap i q)"
    by (simp only: prop_osc_body_def Let_def fst_conv h1 h2 h3 h4 h5)
qed

lemma jet_whine_refines:
  "jet_whine (wrap_at (4 * pi)) n = jet_whine no_wrap n"
  unfolding jet_whine_def
proof (rule wrapped_loop_refines [where inc = "\<lambda>i. snd (jet_whine_body no_wrap i 0)"])
  show "fst (jet_whine_body (wrap_at (4 * pi)) i p) = fst (jet_whine_body no_wrap i p)" for i p
    by (simp add: jet_whine_body_def Let_def)
  show "snd (jet_whine_body (wrap_at (4 * pi)) i p) = wrap_at (4 * pi) (snd (jet_whine_body no_wrap i p))"
    for i p
    by (simp add: jet_whine_body_def Let_def no_wrap_def)
  show "snd (jet_whine_body no_wrap i p) = no_wrap (p + snd (jet_whine_body no_wrap i 0))" for i p
    by (simp add: jet_whine_body_def Let_def no_wrap_def)
next
  fix i :: nat and p q :: real
  assume pr: "phase_related (4 * pi) p q"
  have prc: "phase_related (2 * pi * real_of_int 2) p q" using pr by simp
  have h1: "sin (p) = sin (q)" using phase_related_sin [OF prc, of 1] by simp
  have h2: "sin (2 * p) = sin (2 * q)" using phase_related_sin [OF prc, of 2] by simp
  show "fst (jet_whine_body no_wrap i p) = fst (jet_whine_body no_wrap i q)"
    by (simp only: jet_whine_body_def Let_def fst_conv h1 h2)
qed

lemma rocket_rumble_refines:
  "rocket_rumble (wrap_at (6 * pi)) n = rocket_rumble no_wrap n"
  unfolding rocket_rumble_def
proof (rule wrapped_loop_refines [where inc = "\<lambda>i. snd (rocket_rumble_body no_wrap i 0)"])
  show "fst (rocket_rumble_body (wrap_at (6 * pi)) i p) = fst (rocket_rumble_body no_wrap i p)" for i p
    by (simp add: rocket_rumble_body_def Let_def)
  show "snd (rocket_rumble_body (wrap_at (6 * pi)) i p) = wrap_at (6 * pi) (snd (rocket_rumble_body no_wrap i p))"
    for i p
    by (simp add: rocket_rumble_body_def Let_def no_wrap_def)
  show "snd (rocket_rumble_body no_wrap i p) = no_wrap (p + snd (rocket_rumble_body no_wrap i 0))" for i p
    by (simp add: rocket_rumble_body_def Let_def no_wrap_def)
next
  fix i :: nat and p q :: real
  assume pr: "phase_related (6 * pi) p q"
  have prc: "phase_related (2 * pi * real_of_int 3) p q" using pr by simp
  have h1: "sin (p) = sin (q)" using phase_related_sin [OF prc, of 1] by simp
  have h2: "sin (2 * p) = sin (2 * q)" using phase_related_sin [OF prc, of 2] by simp
  have h3: "sin (3 * p) = sin (3 * q)" using phase_related_sin [OF prc, of 3] by simp
  show "fst (rocket_rumble_body no_wrap i p) = fst (rocket_rumble_body no_wrap i q)"
    by (simp only: rocket_rumble_body_def Let_def fst_conv h1 h2 h3)
qed

lemma piano_tone_refines:
  "piano_tone (wrap_at (12 * pi)) freq amp n = piano_tone no_wrap freq amp n"
  unfolding piano_tone_def
proof (rule wrapped_loop_refines [where inc = "\<lambda>i. snd (piano_note_body no_wrap freq amp i 0)"])
  show "fst (piano_note_body (wrap_at (12 * pi)) freq amp i p) = fst (piano_note_body no_wrap freq amp i p)" for i p
    by (simp add: piano_note_body_def Let_def)
  show "snd (piano_note_body (wrap_at (12 * pi)) freq amp i p) = wrap_at (12 * pi) (snd (piano_note_body no_wrap freq amp i p))"
    for i p
    by (simp add: piano_note_body_def Let_def no_wrap_def)
  show "snd (piano_note_body no_wrap freq amp i p) = no_wrap (p + snd (piano_note_body no_wrap freq amp i 0))" for i p
    by (simp add: piano_note_body_def Let_def no_wrap_def)
next
  fix i :: nat and p q :: real
  assume pr: "phase_related (12 * pi) p q"
  have prc: "phase_related (2 * pi * real_of_int 6) p q" using pr by simp
  have h1: "sin (p) = sin (q)" using phase_related_sin [OF prc, of 1] by simp
  have h2: "sin (2 * p) = sin (2 * q)" using phase_related_sin [OF prc, of 2] by simp
  have h3: "sin (3 * p) = sin (3 * q)" using phase_related_sin [OF prc, of 3] by simp
  have h4: "sin (4 * p) = sin (4 * q)" using phase_related_sin [OF prc, of 4] by simp
  have h6: "sin (6 * p) = sin (6 * q)" using phase_related_sin [OF prc, of 6] by simp
  show "fst (piano_note_body no_wrap freq amp i p) = fst (piano_note_body no_wrap freq amp i q)"
    by (simp only: piano_note_body_def Let_def fst_conv h1 h2 h3 h4 h6)
qed

lemma clue_pop_sweep_refines:
  "clue_pop_sweep (wrap_at (6 * pi)) duration n = clue_pop_sweep no_wrap duration n"
  unfolding clue_pop_sweep_def
proof (rule wrapped_loop_refines [where inc = "\<lambda>i. snd (clue_pop_body no_wrap duration i 0)"])
  show "fst (clue_pop_body (wrap_at (6 * pi)) duration i p) = fst (clue_pop_body no_wrap duration i p)" for i p
    by (simp add: clue_pop_body_def Let_def)
  show "snd (clue_pop_body (wrap_at (6 * pi)) duration i p) = wrap_at (6 * pi) (snd (clue_pop_body no_wrap duration i p))"
    for i p
    by (simp add: clue_pop_body_def Let_def no_wrap_def)
  show "snd (clue_pop_body no_wrap duration i p) = no_wrap (p + snd (clue_pop_body no_wrap duration i 0))" for i p
    by (simp add: clue_pop_body_def Let_def no_wrap_def)
next
  fix i :: nat and p q :: real
  assume pr: "phase_related (6 * pi) p q"
  have prc: "phase_related (2 * pi * real_of_int 3) p q" using pr by simp
  have h1: "sin (p) = sin (q)" using phase_related_sin [OF prc, of 1] by simp
  have h2: "sin (2 * p) = sin (2 * q)" using phase_related_sin [OF prc, of 2] by simp
  have h3: "sin (3 * p) = sin (3 * q)" using phase_related_sin [OF prc, of 3] by simp
  show "fst (clue_pop_body no_wrap duration i p) = fst (clue_pop_body no_wrap duration i q)"
    by (simp only: clue_pop_body_def Let_def fst_conv h1 h2 h3)
qed

lemma landing_note_refines:
  "landing_note (wrap_at (8 * pi)) freq amp n = landing_note no_wrap freq amp n"
  unfolding landing_note_def
proof (rule wrapped_loop_refines [where inc = "\<lambda>i. snd (landing_note_body no_wrap freq amp i 0)"])
  show "fst (landing_note_body (wrap_at (8 * pi)) freq amp i p) = fst (landing_note_body no_wrap freq amp i p)" for i p
    by (simp add: landing_note_body_def Let_def)
  show "snd (landing_note_body (wrap_at (8 * pi)) freq amp i p) = wrap_at (8 * pi) (snd (landing_note_body no_wrap freq amp i p))"
    for i p
    by (simp add: landing_note_body_def Let_def no_wrap_def)
  show "snd (landing_note_body no_wrap freq amp i p) = no_wrap (p + snd (landing_note_body no_wrap freq amp i 0))" for i p
    by (simp add: landing_note_body_def Let_def no_wrap_def)
next
  fix i :: nat and p q :: real
  assume pr: "phase_related (8 * pi) p q"
  have prc: "phase_related (2 * pi * real_of_int 4) p q" using pr by simp
  have h1: "sin (p) = sin (q)" using phase_related_sin [OF prc, of 1] by simp
  have h2: "sin (2 * p) = sin (2 * q)" using phase_related_sin [OF prc, of 2] by simp
  have h3: "sin (3 * p) = sin (3 * q)" using phase_related_sin [OF prc, of 3] by simp
  have h4: "sin (4 * p) = sin (4 * q)" using phase_related_sin [OF prc, of 4] by simp
  show "fst (landing_note_body no_wrap freq amp i p) = fst (landing_note_body no_wrap freq amp i q)"
    by (simp only: landing_note_body_def Let_def fst_conv h1 h2 h3 h4)
qed

lemma altitude_sweep_refines:
  "altitude_sweep (wrap_at (2 * pi)) duration noise n = altitude_sweep no_wrap duration noise n"
  unfolding altitude_sweep_def
proof (rule wrapped_loop_refines [where inc = "\<lambda>i. snd (altitude_change_body no_wrap duration noise i 0)"])
  show "fst (altitude_change_body (wrap_at (2 * pi)) duration noise i p) = fst (altitude_change_body no_wrap duration noise i p)" for i p
    by (simp add: altitude_change_body_def Let_def)
  show "snd (altitude_change_body (wrap_at (2 * pi)) duration noise i p) = wrap_at (2 * pi) (snd (altitude_change_body no_wrap duration noise i p))"
    for i p
    by (simp add: altitude_change_body_def Let_def no_wrap_def)
  show "snd (altitude_change_body no_wrap duration noise i p) = no_wrap (p + snd (altitude_change_body no_wrap duration noise i 0))" for i p
    by (simp add: altitude_change_body_def Let_def no_wrap_def)
next
  fix i :: nat and p q :: real
  assume pr: "phase_related (2 * pi) p q"
  have prc: "phase_related (2 * pi * real_of_int 1) p q" using pr by simp
  have h1: "sin (p) = sin (q)" using phase_related_sin [OF prc, of 1] by simp
  show "fst (altitude_change_body no_wrap duration noise i p) = fst (altitude_change_body no_wrap duration noise i q)"
    by (simp only: altitude_change_body_def Let_def fst_conv h1)
qed

lemma boost_sweep_refines:
  "boost_sweep (wrap_at (8 * pi)) duration noise_hp n = boost_sweep no_wrap duration noise_hp n"
  unfolding boost_sweep_def
proof (rule wrapped_loop_refines [where inc = "\<lambda>i. snd (boost_start_body no_wrap duration noise_hp i 0)"])
  show "fst (boost_start_body (wrap_at (8 * pi)) duration noise_hp i p) = fst (boost_start_body no_wrap duration noise_hp i p)" for i p
    by (simp add: boost_start_body_def Let_def)
  show "snd (boost_start_body (wrap_at (8 * pi)) duration noise_hp i p) = wrap_at (8 * pi) (snd (boost_start_body no_wrap duration noise_hp i p))"
    for i p
    by (simp add: boost_start_body_def Let_def no_wrap_def)
  show "snd (boost_start_body no_wrap duration noise_hp i p) = no_wrap (p + snd (boost_start_body no_wrap duration noise_hp i 0))" for i p
    by (simp add: boost_start_body_def Let_def no_wrap_def)
next
  fix i :: nat and p q :: real
  assume pr: "phase_related (8 * pi) p q"
  have prc: "phase_related (2 * pi * real_of_int 4) p q" using pr by simp
  have h1: "sin (p) = sin (q)" using phase_related_sin [OF prc, of 1] by simp
  have h2: "sin (2 * p) = sin (2 * q)" using phase_related_sin [OF prc, of 2] by simp
  have h3: "sin (3 * p) = sin (3 * q)" using phase_related_sin [OF prc, of 3] by simp
  have h4: "sin (4 * p) = sin (4 * q)" using phase_related_sin [OF prc, of 4] by simp
  show "fst (boost_start_body no_wrap duration noise_hp i p) = fst (boost_start_body no_wrap duration noise_hp i q)"
    by (simp only: boost_start_body_def Let_def fst_conv h1 h2 h3 h4)
qed

text \<open>The same argument for a loop that may raise: both loops raise alike or stay related.\<close>

lemma for_each_sim:
  assumes "R s1 s2"
    and step: "\<And>x s1 s2. R s1 s2 \<Longrightarrow>
                 (\<exists>e. b1 x s1 = Inl e \<and> b2 x s2 = Inl e)
                 \<or> (\<exists>t1 t2. b1 x s1 = Inr t1 \<and> b2 x s2 = Inr t2 \<and> R t1 t2)"
  shows "(\<exists>e. for_each b1 xs s1 = Inl e \<and> for_each b2 xs s2 = Inl e)
         \<or> (\<exists>t1 t2. for_each b1 xs s1 = Inr t1 \<and> for_each b2 xs s2 = Inr t2 \<and> R t1 t2)"
  using assms(1)
proof (induction xs arbitrary: s1 s2)
  case Nil
  then show ?case by simp
next
  case (Cons x xs)
  from step [OF Cons.prems, of x] show ?case
  proof (elim disjE exE conjE)
    fix e assume "b1 x s1 = Inl e" "b2 x s2 = Inl e"
    then show ?thesis by simp
  next
    fix t1 t2 assume t: "b1 x s1 = Inr t1" "b2 x s2 = Inr t2" "R t1 t2"
    from Cons.IH [OF t(3)] show ?thesis by (simp add: t(1,2))
  qed
qed

lemma bomber_inner_step_related:
  assumes pr: "phase_related (8 * pi) p q"
  shows "(\<exists>e. bomber_inner_body (wrap_at (8 * pi)) fi base_freq i (samples, p) = Inl e
              \<and> bomber_inner_body no_wrap fi base_freq i (samples, q) = Inl e)
         \<or> (\<exists>t1 t2. bomber_inner_body (wrap_at (8 * pi)) fi base_freq i (samples, p) = Inr t1
              \<and> bomber_inner_body no_wrap fi base_freq i (samples, q) = Inr t2
              \<and> fst t1 = fst t2 \<and> phase_related (8 * pi) (snd t1) (snd t2))"
proof -
  have prc: "phase_related (2 * pi * real_of_int 4) p q" using pr by simp
  have h1: "sin p = sin q" using phase_related_sin [OF prc, of 1] by simp
  have h2: "sin (2 * p) = sin (2 * q)" using phase_related_sin [OF prc, of 2] by simp
  have h3: "sin (3 * p) = sin (3 * q)" using phase_related_sin [OF prc, of 3] by simp
  have h4: "sin (4 * p) = sin (4 * q)" using phase_related_sin [OF prc, of 4] by simp
  define d where "d = 2 * pi * (base_freq + 3.0 * sin (2 * pi * 0.3 * (real i / SAMPLE_RATE) + real fi))
                        / SAMPLE_RATE"
  define upd where "upd = py_update samples (int i)
      (\<lambda>v. v + (0.5 * sin q + 0.25 * sin (2 * q) + 0.12 * sin (3 * q) + 0.08 * sin (4 * q)) * 0.25)"
  have e1: "bomber_inner_body (wrap_at (8 * pi)) fi base_freq i (samples, p) =
            py_bind upd (\<lambda>samples. Inr (samples, wrap_at (8 * pi) (p + d)))"
    by (simp only: bomber_inner_body_def prod.case Let_def h1 h2 h3 h4 upd_def d_def)
  have e2: "bomber_inner_body no_wrap fi base_freq i (samples, q) =
            py_bind upd (\<lambda>samples. Inr (samples, no_wrap (q + d)))"
    by (simp only: bomber_inner_body_def prod.case Let_def upd_def d_def)
  show ?thesis
  proof (cases upd)
    case (Inl e)
    then show ?thesis by (simp add: e1 e2 py_bind_def)
  next
    case (Inr smp)
    then show ?thesis using phase_related_step [OF pr, of d] by (simp add: e1 e2 py_bind_def)
  qed
qed

lemma bomber_outer_body_refines:
  "bomber_outer_body (wrap_at (8 * pi)) n e samples = bomber_outer_body no_wrap n e samples"
proof -
  obtain fi base_freq init_phase where e: "e = (fi, (base_freq, init_phase))"
    by (cases e) auto
  let ?R = "\<lambda>(s1 :: real list \<times> real) s2. fst s1 = fst s2 \<and> phase_related (8 * pi) (snd s1) (snd s2)"
  have "(\<exists>err. for_each (bomber_inner_body (wrap_at (8 * pi)) fi base_freq) (py_range n)
                   (samples, init_phase) = Inl err
              \<and> for_each (bomber_inner_body no_wrap fi base_freq) (py_range n)
                   (samples, init_phase) = Inl err)
        \<or> (\<exists>t1 t2. for_each (bomber_inner_body (wrap_at (8 * pi)) fi base_freq) (py_range n)
                   (samples, init_phase) = Inr t1
              \<and> for_each (bomber_inner_body no_wrap fi base_freq) (py_range n)
                   (samples, init_phase) = Inr t2
              \<and> ?R t1 t2)"
  proof (rule for_each_sim [where R = ?R])
    show "?R (samples, init_phase) (samples, init_phase)"
      by (simp add: phase_related_refl)
  next
    fix i :: nat and s1 s2 :: "real list \<times> real"
    assume R: "?R s1 s2"
    obtain smp p where s1: "s1 = (smp, p)" by (cases s1)
    obtain smp' q where s2': "s2 = (smp', q)" by (cases s2)
    from R s1 s2' have s2: "s2 = (smp, q)" and pr: "phase_related (8 * pi) p q" by simp_all
    from bomber_inner_step_related [OF pr, of fi base_freq i smp]
    show "(\<exists>e. bomber_inner_body (wrap_at (8 * pi)) fi base_freq i s1 = Inl e
              \<and> bomber_inner_body no_wrap fi base_freq i s2 = Inl e)
         \<or> (\<exists>t1 t2. bomber_inner_body (wrap_at (8 * pi)) fi base_freq i s1 = Inr t1
              \<and> bomber_inner_body no_wrap fi base_freq i s2 = Inr t2 \<and> ?R t1 t2)"
      unfolding s1 s2 by simp
  qed
  then show ?thesis
    by (auto simp: e bomber_outer_body_def py_bind_def split: prod.splits)
qed

text \<open>
  C7. In exact real arithmetic each of the eleven loops of the source that wrap their
  phase produces sample for sample the output of its unwrapped reference, the same loop
  with \<open>no_wrap\<close>: \<open>sine_wave_varying\<close> (wrap at \<open>2 * pi\<close>), the oscillators of the
  biplane (\<open>6 * pi\<close>), propeller (\<open>10 * pi\<close>), bomber (\<open>8 * pi\<close>, one pass of the inner
  loop), jet (\<open>4 * pi\<close>) and rocket (\<open>6 * pi\<close>) engines, the piano tone (\<open>12 * pi\<close>), and
  the loops of \<open>gen_clue_pop\<close> (\<open>6 * pi\<close>), \<open>gen_landing_success\<close> (\<open>8 * pi\<close>),
  \<open>gen_altitude_change\<close> (\<open>2 * pi\<close>) and \<open>gen_boost_start\<close> (\<open>8 * pi\<close>). A wrap at
  \<open>2 * pi * c\<close> subtracts \<open>2 * pi * c\<close> or nothing, and
  \<open>sin (k * (phase - 2 * pi * m)) = sin (k * phase)\<close> for integers \<open>k\<close>, \<open>m\<close>.
\<close>

theorem wrapped_oscillators_refine_unwrapped:
  "sine_wave_varying freq_fn n_samples amp = sine_wave_varying_unwrapped freq_fn n_samples amp
   \<and> biplane_oscillator lib n = biplane_oscillator_unwrapped lib n
   \<and> prop_oscillator (wrap_at (10 * pi)) n = prop_oscillator no_wrap n
   \<and> bomber_outer_body (wrap_at (8 * pi)) n engine samples = bomber_outer_body no_wrap n engine samples
   \<and> jet_whine (wrap_at (4 * pi)) n = jet_whine no_wrap n
   \<and> rocket_rumble (wrap_at (6 * pi)) n = rocket_rumble no_wrap n
   \<and> piano_tone (wrap_at (12 * pi)) freq amp n = piano_tone no_wrap freq amp n
   \<and> clue_pop_sweep (wrap_at (6 * pi)) duration n = clue_pop_sweep no_wrap duration n
   \<and> landing_note (wrap_at (8 * pi)) freq amp n = landing_note no_wrap freq amp n
   \<and> altitude_sweep (wrap_at (2 * pi)) duration noise n = altitude_sweep no_wrap duration noise n
   \<and> boost_sweep (wrap_at (8 * pi)) duration noise n = boost_sweep no_wrap duration noise n
   \<and> wrap_at (2 * pi * real_of_int c) phase \<in> {phase, phase - 2 * pi * real_of_int c}
   \<and> sin (real_of_int k * (phase - 2 * pi * real_of_int m)) = sin (real_of_int k * phase)"
proof -
  have a: "wrap_at (2 * pi * real_of_int c) phase \<in> {phase, phase - 2 * pi * real_of_int c}"
    by (simp add: wrap_at_def)
  from sine_wave_varying_refines [of freq_fn n_samples amp] biplane_oscillator_refines [of lib n]
    prop_oscillator_refines [of n] bomber_outer_body_refines [of n engine samples]
    jet_whine_refines [of n] rocket_rumble_refines [of n] piano_tone_refines [of freq amp n]
    clue_pop_sweep_refines [of duration n] landing_note_refines [of freq amp n]
    altitude_sweep_refines [of duration noise n] boost_sweep_refines [of duration noise n]
    a sin_harmonic_shift [of k phase m]
  show ?thesis by (intro conjI)
qed

section \<open>Phase accumulators\<close>

lemma append_loop_snoc:
  "append_loop body (xs @ [x]) s0 =
     (let (samples, s) = append_loop body xs s0; (v, s') = body x s in (samples @ [v], s'))"
  by (simp add: append_loop_def split: prod.splits)

lemma snd_append_loop_snoc:
  "snd (append_loop body (xs @ [x]) s0) = snd (body x (snd (append_loop body xs s0)))"
  by (simp add: append_loop_snoc split: prod.splits)

lemma snd_coin_collect_body:
  "snd (coin_collect_body i (p1, p2, p3)) =
     (p1 + 2 * pi * 1318.5 / SAMPLE_RATE,
      p2 + 2 * pi * 2093.0 / SAMPLE_RATE,
      p3 + 2 * pi * 880.0 / SAMPLE_RATE)"
  by (simp add: coin_collect_body_def Let_def)

lemma coin_collect_phases:
  "snd (append_loop coin_collect_body [0..<k] (0, 0, 0)) =
     (real k * (2 * pi * 1318.5 / SAMPLE_RATE),
      real k * (2 * pi * 2093.0 / SAMPLE_RATE),
      real k * (2 * pi * 880.0 / SAMPLE_RATE))"
proof (induction k)
  case 0
  show ?case by (simp add: append_loop_def)
next
  case (Suc k)
  have "snd (append_loop coin_collect_body [0..<Suc k] (0, 0, 0)) =
        snd (coin_collect_body k (snd (append_loop coin_collect_body [0..<k] (0, 0, 0))))"
    by (simp only: upt_Suc_append [OF le0] snd_append_loop_snoc)
  also have "\<dots> = (real k * (2 * pi * 1318.5 / SAMPLE_RATE) + 2 * pi * 1318.5 / SAMPLE_RATE,
      real k * (2 * pi * 2093.0 / SAMPLE_RATE) + 2 * pi * 2093.0 / SAMPLE_RATE,
      real k * (2 * pi * 880.0 / SAMPLE_RATE) + 2 * pi * 880.0 / SAMPLE_RATE)"
    by (simp only: Suc.IH snd_coin_collect_body)
  also have "\<dots> = (real (Suc k) * (2 * pi * 1318.5 / SAMPLE_RATE),
      real (Suc k) * (2 * pi * 2093.0 / SAMPLE_RATE),
      real (Suc k) * (2 * pi * 880.0 / SAMPLE_RATE))"
    by (simp add: distrib_right add_divide_distrib add.commute)
  finally show ?case .
qed

lemma coin_collect_loop_phases:
  "snd (coin_collect_loop n) =
     (real (nat n) * (2 * pi * 1318.5 / SAMPLE_RATE),
      real (nat n) * (2 * pi * 2093.0 / SAMPLE_RATE),
      real (nat n) * (2 * pi * 880.0 / SAMPLE_RATE))"
  unfolding coin_collect_loop_def py_range_def
  using coin_collect_phases [of "nat n"] by simp

text \<open>
  C6 fails on \<open>gen_coin_collect\<close>: its closing loop wraps a copy, so after \<open>n\<close> iterations
  the three accumulators are \<open>n\<close> times their increments. For the default duration
  \<^verbatim>\<open>0.35\<close> the loop runs \<open>15434\<close> times (the double product \<^verbatim>\<open>0.35 * 44100\<close> is just
  below \<open>15435\<close>) and the first accumulator ends at \<open>15434\<close> increments, far above
  \<open>2 * pi\<close> plus one increment.
\<close>

theorem coin_collect_phase_never_wrapped:
  "snd (coin_collect_loop n) =
     (real (nat n) * (2 * pi * 1318.5 / SAMPLE_RATE),
      real (nat n) * (2 * pi * 2093.0 / SAMPLE_RATE),
      real (nat n) * (2 * pi * 880.0 / SAMPLE_RATE))
   \<and> sample_count (Finite (fl 0.35)) = Inr 15434
   \<and> fst (snd (coin_collect_loop 15434)) = 15434 * (2 * pi * 1318.5 / SAMPLE_RATE)
   \<and> 2 * pi + 2 * pi * 1318.5 / SAMPLE_RATE < fst (snd (coin_collect_loop 15434))"
proof -
  have b: "fst (snd (coin_collect_loop 15434)) = 15434 * (2 * pi * 1318.5 / SAMPLE_RATE)"
    by (simp only: coin_collect_loop_phases fst_conv) simp
  have lt: "1 + 1318.5 / 44100 < 15434 * (1318.5 / 44100 :: real)" by simp
  have pos: "0 < 2 * pi" using pi_gt_zero by simp
  have "2 * pi * (1 + 1318.5 / 44100) < 2 * pi * (15434 * (1318.5 / 44100))"
    by (rule mult_strict_left_mono [OF lt pos])
  then have "2 * pi + 2 * pi * 1318.5 / SAMPLE_RATE < 15434 * (2 * pi * 1318.5 / SAMPLE_RATE)"
    by (simp add: SAMPLE_RATE_def distrib_left)
  then have c: "2 * pi + 2 * pi * 1318.5 / SAMPLE_RATE < fst (snd (coin_collect_loop 15434))"
    by (simp only: b)
  from coin_collect_loop_phases [of n] count_035 b c show ?thesis by blast
qed


text \<open>
  The sibling loop of \<open>sine_wave_varying\<close> does wrap its accumulator: for frequencies up
  to the sample rate the phase never exceeds \<open>2 * pi\<close> after an iteration.
\<close>

lemma append_loop_invariant:
  assumes "I s0" and "\<And>x s. x \<in> set xs \<Longrightarrow> I s \<Longrightarrow> I (snd (body x s))"
  shows "I (snd (append_loop body xs s0))"
  using assms
proof (induction xs rule: rev_induct)
  case Nil
  then show ?case by (simp add: append_loop_def)
next
  case (snoc x xs)
  have "I (snd (append_loop body xs s0))" using snoc by simp
  then have "I (snd (body x (snd (append_loop body xs s0))))" using snoc.prems(2) by simp
  then show ?case by (simp only: snd_append_loop_snoc)
qed

lemma wrap_at_bounded:
  assumes "phase \<le> W" and "d \<le> W"
  shows "wrap_at W (phase + d) \<le> W"
  using assms by (simp add: wrap_at_def)

lemma sine_wave_varying_phase_bounded:
  assumes "\<And>t. freq_fn t \<le> SAMPLE_RATE"
  shows "snd (append_loop (sine_wave_varying_body (wrap_at (2 * pi)) freq_fn amp) [0..<k] 0)
         \<le> 2 * pi"
proof (rule append_loop_invariant [where I = "\<lambda>phase. phase \<le> 2 * pi"])
  show "(0::real) \<le> 2 * pi" using pi_ge_zero by simp
next
  fix i :: nat and phase :: real
  assume p: "phase \<le> 2 * pi"
  have "freq_fn (real i / SAMPLE_RATE) / SAMPLE_RATE \<le> 1"
    using assms [of "real i / SAMPLE_RATE"] by (simp add: SAMPLE_RATE_def)
  then have "2 * pi * (freq_fn (real i / SAMPLE_RATE) / SAMPLE_RATE) \<le> 2 * pi * 1"
    using pi_ge_zero by (intro mult_left_mono) simp_all
  then have d: "2 * pi * freq_fn (real i / SAMPLE_RATE) / SAMPLE_RATE \<le> 2 * pi" by simp
  show "snd (sine_wave_varying_body (wrap_at (2 * pi)) freq_fn amp i phase) \<le> 2 * pi"
    using wrap_at_bounded [OF p d] by (simp add: sine_wave_varying_body_def Let_def)
qed

section \<open>Sequencer placement\<close>

lemma fl_numeral: "numeral k < (2::int) ^ 53 \<Longrightarrow> fl (numeral k) = numeral k"
  using fl_of_int [of "numeral k"] by simp


lemma py_bind_Inl: "py_bind (Inl e) f = Inl e"
  by (simp add: py_bind_def)


lemma samples_per_beat_80: "samples_per_beat 80 = Inr (Finite 33075)"
  by (simp add: samples_per_beat_def SAMPLE_RATE_def to_double_def double_overflow_def fl_numeral)




























end
